theory Spec2Isabelle
  imports Main
begin

section \<open>The overlap descriptor\<close>

text \<open>
  \<open>OverlappingBlockVector\<close> is a template over an \<open>Overlap\<close> class that it only
  reads through a pointer (\<open>const Overlap *overlap_\<close>). The class itself is not part of
  the sources at hand, so the descriptor is a parameter of every operation: a record with
  one field per method the vector calls. Indices and ranks are C++ \<open>int\<close>; none of the
  loops below counts beyond a value the descriptor returned, so no arithmetic can wrap and
  \<open>int\<close> is used as it is. \<open>peerSet\<close> is a \<open>std::set\<close> of ranks; the field is the
  sequence in which its iterator yields them.
\<close>

record overlap =
  numDomestic :: int
  numNative :: int
  domesticToNative :: "int \<Rightarrow> int"
  nativeToDomestic :: "int \<Rightarrow> int"
  domesticToGlobal :: "int \<Rightarrow> int"
  globalToDomestic :: "int \<Rightarrow> int"
  peerSet :: "int list"
  foreignOverlapSize :: "int \<Rightarrow> int"
  foreignOverlapOffsetToDomesticIdx :: "int \<Rightarrow> int \<Rightarrow> int"
  masterRank :: "int \<Rightarrow> int"
  isBorderWith :: "int \<Rightarrow> int \<Rightarrow> bool"
  isLocal :: "int \<Rightarrow> bool"

section \<open>Failures\<close>

text \<open>
  The C++ has no error handling of its own. What can go wrong is undefined behaviour
  (an index outside a vector or a buffer, a null \<open>shared_ptr\<close> dereferenced because
  \<open>std::map::operator[]\<close> found no entry for the peer), an allocation of negative size,
  and a blocking receive that is never served. Each is a value here.
\<close>

datatype error = OutOfBounds | NullBuffer | NoMessage | SizeMismatch | BadAlloc

definition bindE :: "error + 'a \<Rightarrow> ('a \<Rightarrow> error + 'b) \<Rightarrow> error + 'b" where
  "bindE r f = (case r of Inl e \<Rightarrow> Inl e | Inr x \<Rightarrow> f x)"

definition readAt :: "'a list \<Rightarrow> int \<Rightarrow> error + 'a" where
  "readAt xs i = (if 0 \<le> i \<and> i < int (length xs) then Inr (xs ! nat i) else Inl OutOfBounds)"

definition writeAt :: "'a list \<Rightarrow> int \<Rightarrow> 'a \<Rightarrow> error + 'a list" where
  "writeAt xs i v = (if 0 \<le> i \<and> i < int (length xs) then Inr (xs[nat i := v]) else Inl OutOfBounds)"

section \<open>The overlapping block vector\<close>

text \<open>
  The object: the rows inherited from \<open>Dune::BlockVector\<close> and the five maps from peer
  rank to buffer. A block (\<open>FieldVector\<close>) is any type with a zero and an addition; the
  code only assigns blocks, assigns \<open>0.0\<close> and uses \<open>+=\<close>.
\<close>

record 'v obv =
  rows :: "'v list"
  numIndicesSendBuff :: "int \<rightharpoonup> int list"
  indicesSendBuff :: "int \<rightharpoonup> int list"
  indicesRecvBuff :: "int \<rightharpoonup> int list"
  valuesSendBuff :: "int \<rightharpoonup> 'v list"
  valuesRecvBuff :: "int \<rightharpoonup> 'v list"

text \<open>
  Modelled from the spec: \<open>MpiBuffer::receive\<close> (\<open>ewoms/parallel/mpibuffer.hh\<close> is not
  among the sources). The buffer channel contract makes \<open>receive(buffer, peerRank)\<close>
  blocking: it returns once the peer's message has been stored in the buffer. The message
  in flight from each peer is an input of the operation (\<open>None\<close>: the peer sends nothing,
  the call never returns); a message that does not have the buffer's size is a transport
  failure.
\<close>

definition mpiReceive :: "'a list \<Rightarrow> 'a list option \<Rightarrow> error + 'a list" where
  "mpiReceive buf msg =
     (case msg of None \<Rightarrow> Inl NoMessage
      | Some m \<Rightarrow> if length m = length buf then Inr m else Inl SizeMismatch)"

text \<open>The three loops over \<open>overlap_->peerSet()\<close> of every synchronisation method.\<close>

fun forEachPeer :: "('s \<Rightarrow> int \<Rightarrow> error + 's) \<Rightarrow> int list \<Rightarrow> 's \<Rightarrow> error + 's" where
  "forEachPeer f [] st = Inr st"
| "forEachPeer f (peerRank # rest) st = bindE (f st peerRank) (forEachPeer f rest)"

subsection \<open>sendEntries_ and waitSendFinished_\<close>

fun copyToSendBuffer :: "'v list \<Rightarrow> int list \<Rightarrow> nat \<Rightarrow> 'v list \<Rightarrow> error + 'v list" where
  "copyToSendBuffer xs [] i vals = Inr vals"
| "copyToSendBuffer xs (idx # rest) i vals =
     bindE (readAt xs idx) (\<lambda>v.
     bindE (writeAt vals (int i) v) (\<lambda>vals'.
       copyToSendBuffer xs rest (Suc i) vals'))"

text \<open>
  After \<open>sendEntries_\<close> the message on its way to the peer is the content of
  \<open>valuesSendBuff_[peerRank]\<close>.
\<close>

definition sendEntries :: "'v obv \<Rightarrow> int \<Rightarrow> error + 'v obv" where
  "sendEntries st peerRank =
     (case indicesSendBuff st peerRank of None \<Rightarrow> Inl NullBuffer
      | Some indices \<Rightarrow>
     (case valuesSendBuff st peerRank of None \<Rightarrow> Inl NullBuffer
      | Some vals \<Rightarrow>
        bindE (copyToSendBuffer (rows st) indices 0 vals) (\<lambda>vals'.
          Inr (st\<lparr>valuesSendBuff := (valuesSendBuff st)(peerRank \<mapsto> vals')\<rparr>))))"

definition waitSend :: "'v obv \<Rightarrow> int \<Rightarrow> error + 'v obv" where
  "waitSend st peerRank =
     (case valuesSendBuff st peerRank of None \<Rightarrow> Inl NullBuffer | Some vals \<Rightarrow> Inr st)"

definition waitSendFinished :: "overlap \<Rightarrow> 'v obv \<Rightarrow> error + 'v obv" where
  "waitSendFinished ov st = forEachPeer waitSend (peerSet ov) st"

subsection \<open>The three receive policies\<close>

fun copyFromMaster ::
  "overlap \<Rightarrow> int \<Rightarrow> int list \<Rightarrow> nat \<Rightarrow> 'v list \<Rightarrow> 'v list \<Rightarrow> error + 'v list" where
  "copyFromMaster ov peerRank [] j vals xs = Inr xs"
| "copyFromMaster ov peerRank (domRowIdx # rest) j vals xs =
     (if masterRank ov domRowIdx = peerRank then
        bindE (readAt vals (int j)) (\<lambda>v.
        bindE (writeAt xs domRowIdx v) (\<lambda>xs'.
          copyFromMaster ov peerRank rest (Suc j) vals xs'))
      else copyFromMaster ov peerRank rest (Suc j) vals xs)"

definition receiveFromMaster ::
  "overlap \<Rightarrow> (int \<Rightarrow> 'v list option) \<Rightarrow> 'v obv \<Rightarrow> int \<Rightarrow> error + 'v obv" where
  "receiveFromMaster ov inbox st peerRank =
     (case indicesRecvBuff st peerRank of None \<Rightarrow> Inl NullBuffer
      | Some indices \<Rightarrow>
     (case valuesRecvBuff st peerRank of None \<Rightarrow> Inl NullBuffer
      | Some buf \<Rightarrow>
        bindE (mpiReceive buf (inbox peerRank)) (\<lambda>vals.
        bindE (copyFromMaster ov peerRank indices 0 vals (rows st)) (\<lambda>xs'.
          Inr (st\<lparr>rows := xs', valuesRecvBuff := (valuesRecvBuff st)(peerRank \<mapsto> vals)\<rparr>)))))"

fun addBorder ::
  "overlap \<Rightarrow> int \<Rightarrow> int list \<Rightarrow> nat \<Rightarrow> 'v::plus list \<Rightarrow> 'v list \<Rightarrow> error + 'v list" where
  "addBorder ov peerRank [] j vals xs = Inr xs"
| "addBorder ov peerRank (domRowIdx # rest) j vals xs =
     (if isBorderWith ov domRowIdx peerRank then
        bindE (readAt xs domRowIdx) (\<lambda>cur.
        bindE (readAt vals (int j)) (\<lambda>v.
        bindE (writeAt xs domRowIdx (cur + v)) (\<lambda>xs'.
          addBorder ov peerRank rest (Suc j) vals xs')))
      else
        bindE (readAt vals (int j)) (\<lambda>v.
        bindE (writeAt xs domRowIdx v) (\<lambda>xs'.
          addBorder ov peerRank rest (Suc j) vals xs')))"

definition receiveAddBorder ::
  "overlap \<Rightarrow> (int \<Rightarrow> 'v::plus list option) \<Rightarrow> 'v obv \<Rightarrow> int \<Rightarrow> error + 'v obv" where
  "receiveAddBorder ov inbox st peerRank =
     (case indicesRecvBuff st peerRank of None \<Rightarrow> Inl NullBuffer
      | Some indices \<Rightarrow>
     (case valuesRecvBuff st peerRank of None \<Rightarrow> Inl NullBuffer
      | Some buf \<Rightarrow>
        bindE (mpiReceive buf (inbox peerRank)) (\<lambda>vals.
        bindE (addBorder ov peerRank indices 0 vals (rows st)) (\<lambda>xs'.
          Inr (st\<lparr>rows := xs', valuesRecvBuff := (valuesRecvBuff st)(peerRank \<mapsto> vals)\<rparr>)))))"

fun addAll :: "int list \<Rightarrow> nat \<Rightarrow> 'v::plus list \<Rightarrow> 'v list \<Rightarrow> error + 'v list" where
  "addAll [] j vals xs = Inr xs"
| "addAll (domRowIdx # rest) j vals xs =
     bindE (readAt xs domRowIdx) (\<lambda>cur.
     bindE (readAt vals (int j)) (\<lambda>v.
     bindE (writeAt xs domRowIdx (cur + v)) (\<lambda>xs'.
       addAll rest (Suc j) vals xs')))"

definition receiveAdd ::
  "(int \<Rightarrow> 'v::plus list option) \<Rightarrow> 'v obv \<Rightarrow> int \<Rightarrow> error + 'v obv" where
  "receiveAdd inbox st peerRank =
     (case indicesRecvBuff st peerRank of None \<Rightarrow> Inl NullBuffer
      | Some indices \<Rightarrow>
     (case valuesRecvBuff st peerRank of None \<Rightarrow> Inl NullBuffer
      | Some buf \<Rightarrow>
        bindE (mpiReceive buf (inbox peerRank)) (\<lambda>vals.
        bindE (addAll indices 0 vals (rows st)) (\<lambda>xs'.
          Inr (st\<lparr>rows := xs', valuesRecvBuff := (valuesRecvBuff st)(peerRank \<mapsto> vals)\<rparr>)))))"

subsection \<open>sync, syncAdd, syncAddBorder\<close>

definition sync :: "overlap \<Rightarrow> (int \<Rightarrow> 'v list option) \<Rightarrow> 'v obv \<Rightarrow> error + 'v obv" where
  "sync ov inbox st =
     bindE (forEachPeer sendEntries (peerSet ov) st) (\<lambda>st1.
     bindE (forEachPeer (receiveFromMaster ov inbox) (peerSet ov) st1) (\<lambda>st2.
       waitSendFinished ov st2))"

definition syncAdd ::
  "overlap \<Rightarrow> (int \<Rightarrow> 'v::plus list option) \<Rightarrow> 'v obv \<Rightarrow> error + 'v obv" where
  "syncAdd ov inbox st =
     bindE (forEachPeer sendEntries (peerSet ov) st) (\<lambda>st1.
     bindE (forEachPeer (receiveAdd inbox) (peerSet ov) st1) (\<lambda>st2.
       waitSendFinished ov st2))"

definition syncAddBorder ::
  "overlap \<Rightarrow> (int \<Rightarrow> 'v::plus list option) \<Rightarrow> 'v obv \<Rightarrow> error + 'v obv" where
  "syncAddBorder ov inbox st =
     bindE (forEachPeer sendEntries (peerSet ov) st) (\<lambda>st1.
     bindE (forEachPeer (receiveAddBorder ov inbox) (peerSet ov) st1) (\<lambda>st2.
       waitSendFinished ov st2))"

subsection \<open>assign, assignAddBorder, assignTo\<close>

definition indexRange :: "int \<Rightarrow> int list" where
  "indexRange n = map int [0..<nat n]"

fun assignLocalRows ::
  "overlap \<Rightarrow> 'v::zero list \<Rightarrow> int list \<Rightarrow> 'v list \<Rightarrow> error + 'v list" where
  "assignLocalRows ov nativeBlockVector [] xs = Inr xs"
| "assignLocalRows ov nativeBlockVector (domRowIdx # rest) xs =
     (if domesticToNative ov domRowIdx < 0 then
        bindE (writeAt xs domRowIdx 0) (\<lambda>xs'.
          assignLocalRows ov nativeBlockVector rest xs')
      else
        bindE (readAt nativeBlockVector (domesticToNative ov domRowIdx)) (\<lambda>v.
        bindE (writeAt xs domRowIdx v) (\<lambda>xs'.
          assignLocalRows ov nativeBlockVector rest xs')))"

definition assign ::
  "overlap \<Rightarrow> (int \<Rightarrow> 'v::zero list option) \<Rightarrow> 'v list \<Rightarrow> 'v obv \<Rightarrow> error + 'v obv" where
  "assign ov inbox nativeBlockVector st =
     bindE (assignLocalRows ov nativeBlockVector (indexRange (numDomestic ov)) (rows st)) (\<lambda>xs'.
       sync ov inbox (st\<lparr>rows := xs'\<rparr>))"

definition assignAddBorder ::
  "overlap \<Rightarrow> (int \<Rightarrow> 'v::{zero,plus} list option) \<Rightarrow> 'v list \<Rightarrow> 'v obv \<Rightarrow> error + 'v obv" where
  "assignAddBorder ov inbox nativeBlockVector st =
     bindE (assignLocalRows ov nativeBlockVector (indexRange (numDomestic ov)) (rows st)) (\<lambda>xs'.
       syncAddBorder ov inbox (st\<lparr>rows := xs'\<rparr>))"

text \<open>
  \<open>resize\<close> of the target: the blocks it holds afterwards are all assigned by the loop of
  \<open>assignTo\<close>, so what \<open>resize\<close> leaves in them is never read. A negative size cannot be
  allocated.
\<close>

definition resize :: "'v::zero list \<Rightarrow> int \<Rightarrow> error + 'v list" where
  "resize xs n =
     (if n < 0 then Inl BadAlloc
      else Inr (take (nat n) xs @ replicate (nat n - length xs) 0))"

fun exportRows ::
  "overlap \<Rightarrow> 'v::zero list \<Rightarrow> int list \<Rightarrow> 'v list \<Rightarrow> error + 'v list" where
  "exportRows ov xs [] nativeBlockVector = Inr nativeBlockVector"
| "exportRows ov xs (nativeRowIdx # rest) nativeBlockVector =
     (if nativeToDomestic ov nativeRowIdx < 0 then
        bindE (writeAt nativeBlockVector nativeRowIdx 0) (\<lambda>nbv'.
          exportRows ov xs rest nbv')
      else
        bindE (readAt xs (nativeToDomestic ov nativeRowIdx)) (\<lambda>v.
        bindE (writeAt nativeBlockVector nativeRowIdx v) (\<lambda>nbv'.
          exportRows ov xs rest nbv')))"

text \<open>
  \<open>assignTo\<close> is a \<open>const\<close> method with the target as a reference parameter: it returns
  the object as it was, and the new target.
\<close>

definition assignTo :: "overlap \<Rightarrow> 'v::zero obv \<Rightarrow> 'v list \<Rightarrow> error + ('v obv \<times> 'v list)" where
  "assignTo ov st nativeBlockVector =
     bindE (resize nativeBlockVector (numNative ov)) (\<lambda>nbv.
     bindE (exportRows ov (rows st) (indexRange (numNative ov)) nbv) (\<lambda>nbv'.
       Inr (st, nbv')))"


subsection \<open>createBuffers_ and the constructor\<close>

text \<open>
  Modelled from the spec: the \<open>MpiBuffer\<close> constructor and its \<open>send\<close>, \<open>receive\<close>
  and \<open>wait\<close> (\<open>ewoms/parallel/mpibuffer.hh\<close> is not among the sources). A buffer of
  \<open>n\<close> elements is allocated uninitialised (\<open>uninit\<close> stands for what the memory
  holds), a negative size cannot be allocated, \<open>send\<close> and \<open>wait\<close> leave the buffer as
  it is. During construction each peer sends two messages, the number of its indices and
  the indices; \<open>countInbox\<close> and \<open>indexInbox\<close> hold them.

  First loop of \<open>createBuffers_\<close>: the send buffers for a peer, the index buffer filled
  with global indices.
\<close>

definition sendIndices :: "overlap \<Rightarrow> (nat \<Rightarrow> 'v) \<Rightarrow> 'v obv \<Rightarrow> int \<Rightarrow> error + 'v obv" where
  "sendIndices ov uninit st peerRank =
     (if foreignOverlapSize ov peerRank < 0 then Inl BadAlloc
      else Inr (st\<lparr>
        numIndicesSendBuff := (numIndicesSendBuff st)(peerRank \<mapsto> [foreignOverlapSize ov peerRank]),
        indicesSendBuff := (indicesSendBuff st)(peerRank \<mapsto>
          map (\<lambda>i. domesticToGlobal ov (foreignOverlapOffsetToDomesticIdx ov peerRank i))
            (indexRange (foreignOverlapSize ov peerRank))),
        valuesSendBuff := (valuesSendBuff st)(peerRank \<mapsto>
          map uninit [0..<nat (foreignOverlapSize ov peerRank)])\<rparr>))"

text \<open>
  Second loop: the number of rows, the receive buffers, the indices, and their translation
  from global to domestic. The result of \<open>globalToDomestic\<close> is stored as it comes.
\<close>

definition receiveIndices ::
  "overlap \<Rightarrow> (int \<Rightarrow> int list option) \<Rightarrow> (int \<Rightarrow> int list option) \<Rightarrow> (nat \<Rightarrow> 'v) \<Rightarrow>
   'v obv \<Rightarrow> int \<Rightarrow> error + 'v obv" where
  "receiveIndices ov countInbox indexInbox uninit st peerRank =
     bindE (mpiReceive [0] (countInbox peerRank)) (\<lambda>numRowsRecvBuff.
       if numRowsRecvBuff ! 0 < 0 then Inl BadAlloc
       else
         bindE (mpiReceive (replicate (nat (numRowsRecvBuff ! 0)) 0) (indexInbox peerRank))
           (\<lambda>globalIndices.
             Inr (st\<lparr>
               indicesRecvBuff := (indicesRecvBuff st)(peerRank \<mapsto>
                 map (globalToDomestic ov) globalIndices),
               valuesRecvBuff := (valuesRecvBuff st)(peerRank \<mapsto>
                 map uninit [0..<nat (numRowsRecvBuff ! 0)])\<rparr>)))"

text \<open>Third loop: wait for the sends, then turn the sent global indices into domestic ones.\<close>

definition convertSendIndices :: "overlap \<Rightarrow> 'v obv \<Rightarrow> int \<Rightarrow> error + 'v obv" where
  "convertSendIndices ov st peerRank =
     (case numIndicesSendBuff st peerRank of None \<Rightarrow> Inl NullBuffer
      | Some numIndices \<Rightarrow>
     (case indicesSendBuff st peerRank of None \<Rightarrow> Inl NullBuffer
      | Some indices \<Rightarrow>
        Inr (st\<lparr>indicesSendBuff := (indicesSendBuff st)(peerRank \<mapsto>
          map (globalToDomestic ov) indices)\<rparr>)))"

text \<open>The body of \<open>createBuffers_\<close> is compiled only with \<open>HAVE_MPI\<close>.\<close>

definition createBuffers ::
  "bool \<Rightarrow> overlap \<Rightarrow> (int \<Rightarrow> int list option) \<Rightarrow> (int \<Rightarrow> int list option) \<Rightarrow> (nat \<Rightarrow> 'v) \<Rightarrow>
   'v obv \<Rightarrow> error + 'v obv" where
  "createBuffers haveMPI ov countInbox indexInbox uninit st =
     (if \<not> haveMPI then Inr st
      else
        bindE (forEachPeer (sendIndices ov uninit) (peerSet ov) st) (\<lambda>st1.
        bindE (forEachPeer (receiveIndices ov countInbox indexInbox uninit) (peerSet ov) st1) (\<lambda>st2.
          forEachPeer (convertSendIndices ov) (peerSet ov) st2)))"

text \<open>The constructor from an overlap: \<open>numDomestic()\<close> uninitialised rows and empty
  maps, then \<open>createBuffers_\<close>.\<close>

definition blankVector :: "overlap \<Rightarrow> (nat \<Rightarrow> 'v) \<Rightarrow> 'v obv" where
  "blankVector ov uninit =
     \<lparr>rows = map uninit [0..<nat (numDomestic ov)],
      numIndicesSendBuff = Map.empty, indicesSendBuff = Map.empty,
      indicesRecvBuff = Map.empty, valuesSendBuff = Map.empty,
      valuesRecvBuff = Map.empty\<rparr>"

definition construct ::
  "bool \<Rightarrow> overlap \<Rightarrow> (int \<Rightarrow> int list option) \<Rightarrow> (int \<Rightarrow> int list option) \<Rightarrow> (nat \<Rightarrow> 'v) \<Rightarrow>
   error + 'v obv" where
  "construct haveMPI ov countInbox indexInbox uninit =
     (if numDomestic ov < 0 then Inl BadAlloc
      else createBuffers haveMPI ov countInbox indexInbox uninit (blankVector ov uninit))"

text \<open>
  The other ways to an object. The copy constructor takes the rows and the five maps from
  its argument; the default constructor leaves the rows and the maps empty and does not
  call \<open>createBuffers_\<close>; \<open>operator=\<close> overwrites the rows and the five maps of the object
  with those of its argument. All three also set \<open>overlap_\<close>, which is no field of the
  record: the methods above take the descriptor as an argument.
\<close>

definition copyConstruct :: "'v obv \<Rightarrow> 'v obv" where
  "copyConstruct obv =
     \<lparr>rows = rows obv,
      numIndicesSendBuff = numIndicesSendBuff obv,
      indicesSendBuff = indicesSendBuff obv,
      indicesRecvBuff = indicesRecvBuff obv,
      valuesSendBuff = valuesSendBuff obv,
      valuesRecvBuff = valuesRecvBuff obv\<rparr>"

definition defaultConstruct :: "'v obv" where
  "defaultConstruct =
     \<lparr>rows = [],
      numIndicesSendBuff = Map.empty, indicesSendBuff = Map.empty,
      indicesRecvBuff = Map.empty, valuesSendBuff = Map.empty,
      valuesRecvBuff = Map.empty\<rparr>"

definition operatorAssign :: "'v obv \<Rightarrow> 'v obv \<Rightarrow> 'v obv" where
  "operatorAssign st obv =
     st\<lparr>rows := rows obv,
        numIndicesSendBuff := numIndicesSendBuff obv,
        indicesSendBuff := indicesSendBuff obv,
        indicesRecvBuff := indicesRecvBuff obv,
        valuesSendBuff := valuesSendBuff obv,
        valuesRecvBuff := valuesRecvBuff obv\<rparr>"

section \<open>What a row holds after a call\<close>

text \<open>
  The effect of the receive loops, read row by row. These functions follow the wording of
  the specification; the theorems below compare them with the loops above.

  \<open>lastPos d ds\<close> is the last position of \<open>ds\<close> that holds \<open>d\<close>.
\<close>

fun lastPos :: "int \<Rightarrow> int list \<Rightarrow> nat option" where
  "lastPos d [] = None"
| "lastPos d (x # rest) =
     (case lastPos d rest of Some k \<Rightarrow> Some (Suc k)
      | None \<Rightarrow> if x = d then Some 0 else None)"

definition lastReceived :: "int list option \<Rightarrow> 'v list option \<Rightarrow> int \<Rightarrow> 'v option" where
  "lastReceived indices msg d =
     (case indices of None \<Rightarrow> None
      | Some ds \<Rightarrow> (case msg of None \<Rightarrow> None | Some m \<Rightarrow> map_option (nth m) (lastPos d ds)))"

text \<open>Overwrite-from-master: the value the master rank sent for row \<open>d\<close>, if it is a peer
  and its receive plan lists the row.\<close>

definition fromMaster ::
  "overlap \<Rightarrow> (int \<Rightarrow> 'v list option) \<Rightarrow> 'v obv \<Rightarrow> int \<Rightarrow> 'v option" where
  "fromMaster ov inbox st d =
     (if masterRank ov d \<in> set (peerSet ov)
      then lastReceived (indicesRecvBuff st (masterRank ov d)) (inbox (masterRank ov d)) d
      else None)"

text \<open>Add-always: every value a peer's message holds at a position that lists row \<open>d\<close> is
  added to the row, in the order of the positions.\<close>

fun accumulate :: "int \<Rightarrow> int list \<Rightarrow> nat \<Rightarrow> 'v::plus list \<Rightarrow> 'v \<Rightarrow> 'v" where
  "accumulate d [] j vals cur = cur"
| "accumulate d (x # rest) j vals cur =
     accumulate d rest (Suc j) vals (if x = d then cur + vals ! j else cur)"

definition addFromPeer ::
  "(int \<rightharpoonup> int list) \<Rightarrow> (int \<Rightarrow> 'v::plus list option) \<Rightarrow> int \<Rightarrow> 'v \<Rightarrow> int \<Rightarrow> 'v" where
  "addFromPeer plans inbox d cur p =
     (case plans p of None \<Rightarrow> cur
      | Some ds \<Rightarrow> (case inbox p of None \<Rightarrow> cur | Some m \<Rightarrow> accumulate d ds 0 m cur))"

text \<open>Add-if-border-else-overwrite: at every position that lists row \<open>d\<close> the value of peer
  \<open>p\<close> is added when \<open>isBorderWith(d, p)\<close> and replaces the row otherwise.\<close>

fun mergeBorder ::
  "overlap \<Rightarrow> int \<Rightarrow> int \<Rightarrow> int list \<Rightarrow> nat \<Rightarrow> 'v::plus list \<Rightarrow> 'v \<Rightarrow> 'v" where
  "mergeBorder ov p d [] j vals cur = cur"
| "mergeBorder ov p d (x # rest) j vals cur =
     mergeBorder ov p d rest (Suc j) vals
       (if x = d then (if isBorderWith ov d p then cur + vals ! j else vals ! j) else cur)"

definition mergeFromPeer ::
  "overlap \<Rightarrow> (int \<rightharpoonup> int list) \<Rightarrow> (int \<Rightarrow> 'v::plus list option) \<Rightarrow> int \<Rightarrow> 'v \<Rightarrow> int \<Rightarrow> 'v" where
  "mergeFromPeer ov plans inbox d cur p =
     (case plans p of None \<Rightarrow> cur
      | Some ds \<Rightarrow> (case inbox p of None \<Rightarrow> cur | Some m \<Rightarrow> mergeBorder ov p d ds 0 m cur))"

text \<open>The local copy step of \<open>assign\<close> and the projection of \<open>assignTo\<close>, per row.\<close>

definition localValue :: "overlap \<Rightarrow> 'v::zero list \<Rightarrow> int \<Rightarrow> 'v" where
  "localValue ov nativeBlockVector d =
     (if domesticToNative ov d < 0 then 0
      else nativeBlockVector ! nat (domesticToNative ov d))"

definition exportedValue :: "overlap \<Rightarrow> 'v::zero list \<Rightarrow> int \<Rightarrow> 'v" where
  "exportedValue ov xs n =
     (if nativeToDomestic ov n < 0 then 0 else xs ! nat (nativeToDomestic ov n))"

text \<open>The index buffers of an object: the per-peer send and receive plans.\<close>

definition indexPlans ::
  "'v obv \<Rightarrow> (int \<rightharpoonup> int list) \<times> (int \<rightharpoonup> int list) \<times> (int \<rightharpoonup> int list)" where
  "indexPlans st = (indicesSendBuff st, indicesRecvBuff st, numIndicesSendBuff st)"

text \<open>An object for which no plan has been built.\<close>

definition noPlans :: "(int \<rightharpoonup> int list) \<times> (int \<rightharpoonup> int list) \<times> (int \<rightharpoonup> int list)" where
  "noPlans = (Map.empty, Map.empty, Map.empty)"

text \<open>The global indices a process announces to a peer while the plans are built: those of
  its rows in the foreign overlap with that peer, in the order of the offsets.\<close>

definition sentGlobals :: "overlap \<Rightarrow> int \<Rightarrow> int list" where
  "sentGlobals ov peerRank =
     map (\<lambda>i. domesticToGlobal ov (foreignOverlapOffsetToDomesticIdx ov peerRank i))
       (indexRange (foreignOverlapSize ov peerRank))"

text \<open>\<open>X.assign(V)\<close> followed by \<open>X.assignTo(W)\<close>.\<close>

definition assignThenAssignTo ::
  "overlap \<Rightarrow> (int \<Rightarrow> 'v::zero list option) \<Rightarrow> 'v list \<Rightarrow> 'v obv \<Rightarrow> 'v list \<Rightarrow>
   error + ('v obv \<times> 'v list)" where
  "assignThenAssignTo ov inbox nativeBlockVector st target =
     bindE (assign ov inbox nativeBlockVector st) (\<lambda>st'. assignTo ov st' target)"

section \<open>All processes together\<close>

text \<open>
  Every process runs the same program on its own descriptor and its own vector, and a
  synchronisation method is called on all of them. \<open>ranks\<close> lists the processes.

  Modelled from the spec: the buffer channel between two ranks (\<open>mpibuffer.hh\<close> is not
  among the sources). It delivers the messages of one rank to another in the order they
  were sent, so when all processes make the same calls, a receive from \<open>q\<close> in some call
  on \<open>r\<close> gets what \<open>q\<close> sent to \<open>r\<close> in that call.

  Within one call a process fills and sends all its value buffers before it receives
  anything, so what rank \<open>q\<close> sends to rank \<open>r\<close> is read from the rows \<open>q\<close> has when it
  enters the call; it is the content of \<open>valuesSendBuff_[r]\<close> of \<open>q\<close> after the send loop.
  A rank that is no peer of \<open>q\<close>, or a \<open>q\<close> whose send loop fails, gets nothing from \<open>q\<close>.
  \<open>everyRank\<close> runs a call on every rank; a failure on one of them is the failure of the
  whole.
\<close>

record 'v cluster =
  ranks :: "int list"
  overlapOf :: "int \<Rightarrow> overlap"
  vectorOf :: "int \<Rightarrow> 'v obv"

definition sentTo :: "'v cluster \<Rightarrow> int \<Rightarrow> int \<Rightarrow> 'v list option" where
  "sentTo cl q r =
     (if q \<in> set (ranks cl) \<and> r \<in> set (peerSet (overlapOf cl q)) then
        (case forEachPeer sendEntries (peerSet (overlapOf cl q)) (vectorOf cl q) of
           Inl e \<Rightarrow> None
         | Inr st1 \<Rightarrow> valuesSendBuff st1 r)
      else None)"

definition everyRank :: "(int \<Rightarrow> error + 'v obv) \<Rightarrow> 'v cluster \<Rightarrow> error + 'v cluster" where
  "everyRank f cl =
     (case find (\<lambda>r. isl (f r)) (ranks cl) of
        Some r \<Rightarrow> Inl (projl (f r))
      | None \<Rightarrow>
          Inr (cl\<lparr>vectorOf := (\<lambda>r. if r \<in> set (ranks cl) then projr (f r) else vectorOf cl r)\<rparr>))"

definition syncOn :: "'v cluster \<Rightarrow> int \<Rightarrow> error + 'v obv" where
  "syncOn cl r = sync (overlapOf cl r) (\<lambda>q. sentTo cl q r) (vectorOf cl r)"

definition syncEverywhere :: "'v cluster \<Rightarrow> error + 'v cluster" where
  "syncEverywhere cl = everyRank (syncOn cl) cl"

definition localCopyOn :: "(int \<Rightarrow> 'v::zero list) \<Rightarrow> 'v cluster \<Rightarrow> int \<Rightarrow> error + 'v obv" where
  "localCopyOn natives cl r =
     bindE (assignLocalRows (overlapOf cl r) (natives r)
              (indexRange (numDomestic (overlapOf cl r))) (rows (vectorOf cl r)))
       (\<lambda>xs'. Inr ((vectorOf cl r)\<lparr>rows := xs'\<rparr>))"

definition assignEverywhere :: "(int \<Rightarrow> 'v::zero list) \<Rightarrow> 'v cluster \<Rightarrow> error + 'v cluster" where
  "assignEverywhere natives cl = bindE (everyRank (localCopyOn natives cl) cl) syncEverywhere"

text \<open>
  The constructors of all processes. What rank \<open>q\<close> announces to rank \<open>r\<close>, the number
  of its indices and the indices, is the content of \<open>numIndicesSendBuff_[r]\<close> and
  \<open>indicesSendBuff_[r]\<close> of \<open>q\<close> after the first loop of \<open>createBuffers_\<close>.
\<close>

definition countSentTo ::
  "int list \<Rightarrow> (int \<Rightarrow> overlap) \<Rightarrow> (nat \<Rightarrow> 'v) \<Rightarrow> int \<Rightarrow> int \<Rightarrow> int list option" where
  "countSentTo rs ovs uninit q r =
     (if q \<in> set rs \<and> 0 \<le> numDomestic (ovs q) \<and> r \<in> set (peerSet (ovs q)) then
        (case forEachPeer (sendIndices (ovs q) uninit) (peerSet (ovs q))
                (blankVector (ovs q) uninit) of
           Inl e \<Rightarrow> None
         | Inr st1 \<Rightarrow> numIndicesSendBuff st1 r)
      else None)"

definition indicesSentTo ::
  "int list \<Rightarrow> (int \<Rightarrow> overlap) \<Rightarrow> (nat \<Rightarrow> 'v) \<Rightarrow> int \<Rightarrow> int \<Rightarrow> int list option" where
  "indicesSentTo rs ovs uninit q r =
     (if q \<in> set rs \<and> 0 \<le> numDomestic (ovs q) \<and> r \<in> set (peerSet (ovs q)) then
        (case forEachPeer (sendIndices (ovs q) uninit) (peerSet (ovs q))
                (blankVector (ovs q) uninit) of
           Inl e \<Rightarrow> None
         | Inr st1 \<Rightarrow> indicesSendBuff st1 r)
      else None)"

definition constructOn ::
  "int list \<Rightarrow> (int \<Rightarrow> overlap) \<Rightarrow> (nat \<Rightarrow> 'v) \<Rightarrow> int \<Rightarrow> error + 'v obv" where
  "constructOn rs ovs uninit r =
     construct True (ovs r)
       (\<lambda>q. countSentTo rs ovs uninit q r) (\<lambda>q. indicesSentTo rs ovs uninit q r) uninit"

definition constructEverywhere ::
  "int list \<Rightarrow> (int \<Rightarrow> overlap) \<Rightarrow> (nat \<Rightarrow> 'v) \<Rightarrow> error + 'v cluster" where
  "constructEverywhere rs ovs uninit =
     everyRank (constructOn rs ovs uninit)
       \<lparr>ranks = rs, overlapOf = ovs, vectorOf = (\<lambda>r. blankVector (ovs r) uninit)\<rparr>"

text \<open>
  What the descriptors of different processes are expected to agree on, read off the plans
  the constructor has built: no rank is its own peer; the plan by which \<open>r\<close> receives
  from \<open>q\<close> is as long as the plan by which \<open>q\<close> sends to \<open>r\<close>; and a row that \<open>r\<close>
  takes from \<open>q\<close> as its master is, at the same position of \<open>q\<close>'s send plan, a row that
  \<open>q\<close> is the master of.
\<close>

definition plansAgree :: "'v cluster \<Rightarrow> int \<Rightarrow> int \<Rightarrow> bool" where
  "plansAgree cl r q \<longleftrightarrow>
     (case indicesRecvBuff (vectorOf cl r) q of None \<Rightarrow> False
      | Some recv \<Rightarrow>
     (case indicesSendBuff (vectorOf cl q) r of None \<Rightarrow> False
      | Some send \<Rightarrow>
          length recv = length send \<and>
          (\<forall>k \<in> set [0..<length recv].
             masterRank (overlapOf cl r) (recv ! k) = q \<longrightarrow>
             masterRank (overlapOf cl q) (send ! k) = q)))"

definition coherent :: "'v cluster \<Rightarrow> bool" where
  "coherent cl \<longleftrightarrow>
     (\<forall>r \<in> set (ranks cl).
        r \<notin> set (peerSet (overlapOf cl r)) \<and>
        (\<forall>q \<in> set (peerSet (overlapOf cl r)). plansAgree cl r q))"

text \<open>
  Every process holds \<open>numDomestic()\<close> rows, and every domestic row is either its own or
  listed in the plan by which it receives from the row's master rank, a peer.
\<close>

definition covered :: "'v cluster \<Rightarrow> bool" where
  "covered cl \<longleftrightarrow>
     (\<forall>r \<in> set (ranks cl).
        int (length (rows (vectorOf cl r))) = numDomestic (overlapOf cl r) \<and>
        (\<forall>d \<in> set (indexRange (numDomestic (overlapOf cl r))).
           masterRank (overlapOf cl r) d = r \<or>
           (masterRank (overlapOf cl r) d \<in> set (peerSet (overlapOf cl r)) \<and>
            (case indicesRecvBuff (vectorOf cl r) (masterRank (overlapOf cl r) d) of
               None \<Rightarrow> False | Some recv \<Rightarrow> d \<in> set recv))))"

text \<open>The copy of row \<open>d\<close> of rank \<open>r\<close> at the row's master rank: the rank and its row
  index, found through the position of the row in the plans of the two.\<close>

definition masterCopy :: "'v cluster \<Rightarrow> int \<Rightarrow> int \<Rightarrow> (int \<times> int) option" where
  "masterCopy cl r d =
     (if masterRank (overlapOf cl r) d = r then Some (r, d)
      else
        (case indicesRecvBuff (vectorOf cl r) (masterRank (overlapOf cl r) d) of None \<Rightarrow> None
         | Some recv \<Rightarrow>
        (case indicesSendBuff (vectorOf cl (masterRank (overlapOf cl r) d)) r of None \<Rightarrow> None
         | Some send \<Rightarrow>
             map_option (\<lambda>k. (masterRank (overlapOf cl r) d, send ! k)) (lastPos d recv))))"

text \<open>
  The same agreement stated on the descriptors alone. Peer sets have no rank twice, hold
  ranks of the cluster and are symmetric; no size is negative; and for every global index
  that \<open>q\<close> announces to \<open>r\<close>: if \<open>r\<close> takes \<open>q\<close> for the master of its row with that
  index, then \<open>q\<close> is the master of its own row with that index. \<open>descriptorsCover\<close>:
  every row a process does not own is announced to it by the row's master, a peer.
\<close>

definition descriptorsAgree :: "int list \<Rightarrow> (int \<Rightarrow> overlap) \<Rightarrow> bool" where
  "descriptorsAgree rs ovs \<longleftrightarrow>
     (\<forall>r \<in> set rs.
        0 \<le> numDomestic (ovs r) \<and> distinct (peerSet (ovs r)) \<and> r \<notin> set (peerSet (ovs r)) \<and>
        (\<forall>q \<in> set (peerSet (ovs r)).
           q \<in> set rs \<and> r \<in> set (peerSet (ovs q)) \<and> 0 \<le> foreignOverlapSize (ovs r) q \<and>
           (\<forall>g \<in> set (sentGlobals (ovs q) r).
              masterRank (ovs r) (globalToDomestic (ovs r) g) = q \<longrightarrow>
              masterRank (ovs q) (globalToDomestic (ovs q) g) = q)))"

definition descriptorsCover :: "int list \<Rightarrow> (int \<Rightarrow> overlap) \<Rightarrow> bool" where
  "descriptorsCover rs ovs \<longleftrightarrow>
     (\<forall>r \<in> set rs. \<forall>d \<in> set (indexRange (numDomestic (ovs r))).
        masterRank (ovs r) d = r \<or>
        (masterRank (ovs r) d \<in> set (peerSet (ovs r)) \<and>
         d \<in> set (map (globalToDomestic (ovs r)) (sentGlobals (ovs (masterRank (ovs r) d)) r))))"

text \<open>A message holds, position by position, the rows a send plan names.\<close>

definition carries :: "'v list \<Rightarrow> int list \<Rightarrow> 'v list option \<Rightarrow> bool" where
  "carries xs send msg \<longleftrightarrow>
     (case msg of None \<Rightarrow> False
      | Some m \<Rightarrow> \<forall>k < length send.
          0 \<le> send ! k \<and> send ! k < int (length xs) \<and> m ! k = xs ! nat (send ! k))"

section \<open>A process with two peers\<close>

text \<open>
  Rank 0 holds three rows: row 0 is its own, row 1 belongs to rank 1 and row 2 to rank 2.
  Both peers send a value for rows 1 and 2, and rank 1 also sends one for row 0. Row 1 is a
  border row with rank 2 only, row 2 with rank 1 only.
\<close>

definition ex_ov :: overlap where
  "ex_ov = \<lparr>numDomestic = 3, numNative = 2,
     domesticToNative = (\<lambda>d. if d = 0 then 0 else if d = 1 then 1 else - 1),
     nativeToDomestic = (\<lambda>n. if n = 0 then 0 else if n = 1 then 1 else - 1),
     domesticToGlobal = (\<lambda>d. d + 10),
     globalToDomestic = (\<lambda>g. if 10 \<le> g \<and> g < 13 then g - 10 else - 1),
     peerSet = [1, 2],
     foreignOverlapSize = (\<lambda>p. 1),
     foreignOverlapOffsetToDomesticIdx = (\<lambda>p i. 0),
     masterRank = (\<lambda>d. if d = 0 then 0 else if d = 1 then 1 else 2),
     isBorderWith = (\<lambda>d p. (d = 1 \<and> p = 2) \<or> (d = 2 \<and> p = 1)),
     isLocal = (\<lambda>d. d = 0)\<rparr>"

definition ex_st :: "int obv" where
  "ex_st = \<lparr>rows = [10, 20, 30],
     numIndicesSendBuff = [1 \<mapsto> [1], 2 \<mapsto> [1]],
     indicesSendBuff = [1 \<mapsto> [0], 2 \<mapsto> [0]],
     indicesRecvBuff = [1 \<mapsto> [1, 2, 0], 2 \<mapsto> [2, 1]],
     valuesSendBuff = [1 \<mapsto> [0], 2 \<mapsto> [0]],
     valuesRecvBuff = [1 \<mapsto> [0, 0, 0], 2 \<mapsto> [0, 0]]\<rparr>"

definition ex_inbox :: "int \<Rightarrow> int list option" where
  "ex_inbox = [1 \<mapsto> [21, 31, 99], 2 \<mapsto> [32, 22]]"

definition ex_V :: "int list" where
  "ex_V = [7, 8]"

text \<open>What the two peers send to rank 0 while it builds its plans; rank 1 names a global
  index (99) that rank 0 does not hold.\<close>

definition ex_countInbox :: "int \<Rightarrow> int list option" where
  "ex_countInbox = [1 \<mapsto> [2], 2 \<mapsto> [1]]"

definition ex_indexInbox :: "int \<Rightarrow> int list option" where
  "ex_indexInbox = [1 \<mapsto> [11, 99], 2 \<mapsto> [12]]"

section \<open>Two processes\<close>

text \<open>
  Ranks 0 and 1 hold two rows each: row 0 is the process's own, row 1 is its copy of the
  other's row 0. On rank 0 both rows have a native index, on rank 1 only its own row.
\<close>

definition ex_ov0 :: overlap where
  "ex_ov0 = \<lparr>numDomestic = 2, numNative = 2,
     domesticToNative = (\<lambda>d. d),
     nativeToDomestic = (\<lambda>n. n),
     domesticToGlobal = (\<lambda>d. if d = 0 then 100 else 101),
     globalToDomestic = (\<lambda>g. if g = 100 then 0 else if g = 101 then 1 else - 1),
     peerSet = [1],
     foreignOverlapSize = (\<lambda>p. 1),
     foreignOverlapOffsetToDomesticIdx = (\<lambda>p i. 0),
     masterRank = (\<lambda>d. if d = 0 then 0 else 1),
     isBorderWith = (\<lambda>d p. False),
     isLocal = (\<lambda>d. d = 0)\<rparr>"

definition ex_ov1 :: overlap where
  "ex_ov1 = \<lparr>numDomestic = 2, numNative = 1,
     domesticToNative = (\<lambda>d. if d = 0 then 0 else - 1),
     nativeToDomestic = (\<lambda>n. if n = 0 then 0 else - 1),
     domesticToGlobal = (\<lambda>d. if d = 0 then 101 else 100),
     globalToDomestic = (\<lambda>g. if g = 101 then 0 else if g = 100 then 1 else - 1),
     peerSet = [0],
     foreignOverlapSize = (\<lambda>p. 1),
     foreignOverlapOffsetToDomesticIdx = (\<lambda>p i. 0),
     masterRank = (\<lambda>d. if d = 0 then 1 else 0),
     isBorderWith = (\<lambda>d p. False),
     isLocal = (\<lambda>d. d = 0)\<rparr>"

definition ex_vec0 :: "int obv" where
  "ex_vec0 = \<lparr>rows = [1, 2],
     numIndicesSendBuff = [1 \<mapsto> [1]], indicesSendBuff = [1 \<mapsto> [0]],
     indicesRecvBuff = [1 \<mapsto> [1]],
     valuesSendBuff = [1 \<mapsto> [0]], valuesRecvBuff = [1 \<mapsto> [0]]\<rparr>"

definition ex_vec1 :: "int obv" where
  "ex_vec1 = \<lparr>rows = [3, 4],
     numIndicesSendBuff = [0 \<mapsto> [1]], indicesSendBuff = [0 \<mapsto> [0]],
     indicesRecvBuff = [0 \<mapsto> [1]],
     valuesSendBuff = [0 \<mapsto> [0]], valuesRecvBuff = [0 \<mapsto> [0]]\<rparr>"

definition ex_cl :: "int cluster" where
  "ex_cl = \<lparr>ranks = [0, 1],
     overlapOf = (\<lambda>r. if r = 0 then ex_ov0 else ex_ov1),
     vectorOf = (\<lambda>r. if r = 0 then ex_vec0 else ex_vec1)\<rparr>"

definition ex_natives :: "int \<Rightarrow> int list" where
  "ex_natives = (\<lambda>r. if r = 0 then [5, 6] else [9])"

text \<open>
  What rank 1 announces to rank 0 while rank 0 builds its plans: one index, the global
  index 101. \<open>ex_x\<close> is the object rank 0 constructs from \<open>ex_ov0\<close>; \<open>ex_y\<close> is the object
  it constructs from a descriptor with an empty foreign overlap.
\<close>

definition ex_fromRank1_count :: "int \<Rightarrow> int list option" where
  "ex_fromRank1_count = [1 \<mapsto> [1]]"

definition ex_fromRank1_index :: "int \<Rightarrow> int list option" where
  "ex_fromRank1_index = [1 \<mapsto> [101]]"

definition ex_x :: "int obv" where
  "ex_x = projr (construct True ex_ov0 ex_fromRank1_count ex_fromRank1_index (\<lambda>i. 0))"

definition ex_y :: "int obv" where
  "ex_y = projr (construct True (ex_ov0\<lparr>foreignOverlapSize := (\<lambda>p. 0)\<rparr>)
                   ex_fromRank1_count ex_fromRank1_index (\<lambda>i. 0))"

section \<open>Two processes that name each other as master\<close>

text \<open>
  Ranks 0 and 1 hold one row each, the row with global index 100, and the descriptor of
  each names the other rank as the master of that row. The plans of \<open>sw_vec0\<close> and
  \<open>sw_vec1\<close> are those the two constructors build from these descriptors.
\<close>

definition sw_ov0 :: overlap where
  "sw_ov0 = \<lparr>numDomestic = 1, numNative = 1,
     domesticToNative = (\<lambda>d. d),
     nativeToDomestic = (\<lambda>n. n),
     domesticToGlobal = (\<lambda>d. 100),
     globalToDomestic = (\<lambda>g. if g = 100 then 0 else - 1),
     peerSet = [1],
     foreignOverlapSize = (\<lambda>p. 1),
     foreignOverlapOffsetToDomesticIdx = (\<lambda>p i. 0),
     masterRank = (\<lambda>d. 1),
     isBorderWith = (\<lambda>d p. False),
     isLocal = (\<lambda>d. False)\<rparr>"

definition sw_ov1 :: overlap where
  "sw_ov1 = \<lparr>numDomestic = 1, numNative = 1,
     domesticToNative = (\<lambda>d. d),
     nativeToDomestic = (\<lambda>n. n),
     domesticToGlobal = (\<lambda>d. 100),
     globalToDomestic = (\<lambda>g. if g = 100 then 0 else - 1),
     peerSet = [0],
     foreignOverlapSize = (\<lambda>p. 1),
     foreignOverlapOffsetToDomesticIdx = (\<lambda>p i. 0),
     masterRank = (\<lambda>d. 0),
     isBorderWith = (\<lambda>d p. False),
     isLocal = (\<lambda>d. False)\<rparr>"

definition sw_vec0 :: "int obv" where
  "sw_vec0 = \<lparr>rows = [1],
     numIndicesSendBuff = [1 \<mapsto> [1]], indicesSendBuff = [1 \<mapsto> [0]],
     indicesRecvBuff = [1 \<mapsto> [0]],
     valuesSendBuff = [1 \<mapsto> [0]], valuesRecvBuff = [1 \<mapsto> [0]]\<rparr>"

definition sw_vec1 :: "int obv" where
  "sw_vec1 = \<lparr>rows = [3],
     numIndicesSendBuff = [0 \<mapsto> [1]], indicesSendBuff = [0 \<mapsto> [0]],
     indicesRecvBuff = [0 \<mapsto> [0]],
     valuesSendBuff = [0 \<mapsto> [0]], valuesRecvBuff = [0 \<mapsto> [0]]\<rparr>"

definition sw_cl :: "int cluster" where
  "sw_cl = \<lparr>ranks = [0, 1],
     overlapOf = (\<lambda>r. if r = 0 then sw_ov0 else sw_ov1),
     vectorOf = (\<lambda>r. if r = 0 then sw_vec0 else sw_vec1)\<rparr>"

definition sw_natives :: "int \<Rightarrow> int list" where
  "sw_natives = (\<lambda>r. if r = 0 then [5] else [9])"

section \<open>Two processes, one of which announces nothing\<close>

text \<open>
  The two processes of \<open>ex_cl\<close>, but the foreign overlap of rank 1 with rank 0 is empty:
  rank 1 announces no row to rank 0 and sends it no value, although rank 0 holds row 1 as
  a copy of a row of rank 1. The plans of \<open>un_vec0\<close> and \<open>un_vec1\<close> are those the two
  constructors build from these descriptors.
\<close>

definition un_ov1 :: overlap where
  "un_ov1 = \<lparr>numDomestic = 2, numNative = 1,
     domesticToNative = (\<lambda>d. if d = 0 then 0 else - 1),
     nativeToDomestic = (\<lambda>n. if n = 0 then 0 else - 1),
     domesticToGlobal = (\<lambda>d. if d = 0 then 101 else 100),
     globalToDomestic = (\<lambda>g. if g = 101 then 0 else if g = 100 then 1 else - 1),
     peerSet = [0],
     foreignOverlapSize = (\<lambda>p. 0),
     foreignOverlapOffsetToDomesticIdx = (\<lambda>p i. 0),
     masterRank = (\<lambda>d. if d = 0 then 1 else 0),
     isBorderWith = (\<lambda>d p. False),
     isLocal = (\<lambda>d. d = 0)\<rparr>"

definition un_vec0 :: "int obv" where
  "un_vec0 = \<lparr>rows = [1, 2],
     numIndicesSendBuff = [1 \<mapsto> [1]], indicesSendBuff = [1 \<mapsto> [0]],
     indicesRecvBuff = [1 \<mapsto> []],
     valuesSendBuff = [1 \<mapsto> [0]], valuesRecvBuff = [1 \<mapsto> []]\<rparr>"

definition un_vec1 :: "int obv" where
  "un_vec1 = \<lparr>rows = [3, 4],
     numIndicesSendBuff = [0 \<mapsto> [0]], indicesSendBuff = [0 \<mapsto> []],
     indicesRecvBuff = [0 \<mapsto> [1]],
     valuesSendBuff = [0 \<mapsto> []], valuesRecvBuff = [0 \<mapsto> [0]]\<rparr>"

definition un_cl :: "int cluster" where
  "un_cl = \<lparr>ranks = [0, 1],
     overlapOf = (\<lambda>r. if r = 0 then ex_ov0 else un_ov1),
     vectorOf = (\<lambda>r. if r = 0 then un_vec0 else un_vec1)\<rparr>"

section \<open>Basic facts\<close>

lemma bindE_Inr [simp]: "bindE (Inr x) f = f x"
  by (simp add: bindE_def)

lemma bindE_Inl [simp]: "bindE (Inl e) f = Inl e"
  by (simp add: bindE_def)

lemma bindE_eq_Inr: "bindE r f = Inr y \<longleftrightarrow> (\<exists>x. r = Inr x \<and> f x = Inr y)"
  by (cases r) simp_all

lemma readAt_eq_Inr: "readAt xs i = Inr v \<longleftrightarrow> 0 \<le> i \<and> i < int (length xs) \<and> v = xs ! nat i"
  by (auto simp: readAt_def)

lemma writeAt_eq_Inr:
  "writeAt xs i v = Inr ys \<longleftrightarrow> 0 \<le> i \<and> i < int (length xs) \<and> ys = xs[nat i := v]"
  by (auto simp: writeAt_def)

lemma mpiReceive_eq_Inr:
  "mpiReceive buf msg = Inr vals \<longleftrightarrow> msg = Some vals \<and> length vals = length buf"
  by (auto simp: mpiReceive_def split: option.splits)

lemma in_indexRange: "d \<in> set (indexRange n) \<longleftrightarrow> 0 \<le> d \<and> d < n"
proof
  assume "d \<in> set (indexRange n)"
  then show "0 \<le> d \<and> d < n" by (auto simp: indexRange_def)
next
  assume "0 \<le> d \<and> d < n"
  then have "nat d \<in> {0..<nat n}" and "d = int (nat d)" by auto
  then have "d \<in> int ` {0..<nat n}" by (metis imageI)
  then show "d \<in> set (indexRange n)" by (simp add: indexRange_def)
qed

lemmas ex_defs =
  ex_ov_def ex_st_def ex_inbox_def sendEntries_def waitSendFinished_def waitSend_def
  readAt_def writeAt_def mpiReceive_def indexRange_def upt_conv_Cons


section \<open>The loops over the peers\<close>

lemma forEachPeer_preserves:
  assumes step: "\<And>s p s'. f s p = Inr s' \<Longrightarrow> g s' = g s"
    and run: "forEachPeer f ps st = Inr st'"
  shows "g st' = g st"
  using run
proof (induction ps arbitrary: st)
  case Nil
  then show ?case by simp
next
  case (Cons p ps)
  then obtain s1 where "f st p = Inr s1" and "forEachPeer f ps s1 = Inr st'"
    by (auto simp: bindE_eq_Inr)
  with Cons.IH step show ?case by fastforce
qed

text \<open>A receive loop whose step acts on each row through a function of the receive plans,
  which the step leaves alone.\<close>

lemma forEachPeer_rowwise:
  assumes len: "\<And>s p s'. f s p = Inr s' \<Longrightarrow> length (rows s') = length (rows s)"
    and plan: "\<And>s p s'. f s p = Inr s' \<Longrightarrow> indicesRecvBuff s' = indicesRecvBuff s"
    and row: "\<And>s p s' d. f s p = Inr s' \<Longrightarrow> 0 \<le> d \<Longrightarrow> d < int (length (rows s)) \<Longrightarrow>
                rows s' ! nat d = g (indicesRecvBuff s) d (rows s ! nat d) p"
    and run: "forEachPeer f ps st = Inr st'"
  shows "length (rows st') = length (rows st) \<and>
         (\<forall>d. 0 \<le> d \<and> d < int (length (rows st)) \<longrightarrow>
            rows st' ! nat d = foldl (g (indicesRecvBuff st) d) (rows st ! nat d) ps)"
  using run
proof (induction ps arbitrary: st)
  case Nil
  then show ?case by simp
next
  case (Cons p ps)
  then obtain s1 where s1: "f st p = Inr s1" and r: "forEachPeer f ps s1 = Inr st'"
    by (auto simp: bindE_eq_Inr)
  from Cons.IH[OF r] len[OF s1] plan[OF s1] row[OF s1]
  show ?case by simp
qed

section \<open>Sending\<close>

lemma sendEntries_frame:
  assumes "sendEntries st p = Inr st'"
  shows "rows st' = rows st"
    and "indicesRecvBuff st' = indicesRecvBuff st"
    and "indicesSendBuff st' = indicesSendBuff st"
    and "numIndicesSendBuff st' = numIndicesSendBuff st"
    and "valuesRecvBuff st' = valuesRecvBuff st"
  using assms
  by (auto simp: sendEntries_def bindE_eq_Inr split: option.splits)

lemma sendAll_frame:
  assumes "forEachPeer sendEntries ps st = Inr st'"
  shows "rows st' = rows st" and "indicesRecvBuff st' = indicesRecvBuff st"
    and "indicesSendBuff st' = indicesSendBuff st"
    and "numIndicesSendBuff st' = numIndicesSendBuff st"
    and "valuesRecvBuff st' = valuesRecvBuff st"
  using forEachPeer_preserves[OF _ assms, where g = rows]
    forEachPeer_preserves[OF _ assms, where g = indicesRecvBuff]
    forEachPeer_preserves[OF _ assms, where g = indicesSendBuff]
    forEachPeer_preserves[OF _ assms, where g = numIndicesSendBuff]
    forEachPeer_preserves[OF _ assms, where g = valuesRecvBuff]
  by (simp_all add: sendEntries_frame)

lemma waitSend_id: "waitSend st p = Inr st' \<Longrightarrow> st' = st"
  by (auto simp: waitSend_def split: option.splits)

lemma waitSendFinished_id: "waitSendFinished ov st = Inr st' \<Longrightarrow> st' = st"
  unfolding waitSendFinished_def
  by (rule forEachPeer_preserves[where g = "\<lambda>s. s"]) (auto dest: waitSend_id)

section \<open>Overwrite from the master\<close>

lemma copyFromMaster_result:
  "copyFromMaster ov p ds j vals xs = Inr xs' \<Longrightarrow>
   length xs' = length xs \<and>
   (\<forall>d. 0 \<le> d \<and> d < int (length xs) \<longrightarrow>
      xs' ! nat d =
        (if masterRank ov d = p
         then (case lastPos d ds of Some k \<Rightarrow> vals ! (j + k) | None \<Rightarrow> xs ! nat d)
         else xs ! nat d))"
proof (induction ds arbitrary: j xs)
  case Nil
  then show ?case by simp
next
  case (Cons a ds)
  show ?case
  proof (cases "masterRank ov a = p")
    case True
    with Cons.prems obtain v xs1 where
      v: "readAt vals (int j) = Inr v" and w: "writeAt xs a v = Inr xs1"
      and r: "copyFromMaster ov p ds (Suc j) vals xs1 = Inr xs'"
      by (auto simp: bindE_eq_Inr)
    from w have a: "0 \<le> a" "a < int (length xs)" and xs1: "xs1 = xs[nat a := v]"
      by (simp_all add: writeAt_eq_Inr)
    from v have vj: "v = vals ! j" by (simp add: readAt_eq_Inr)
    from Cons.IH[OF r] xs1 have len: "length xs' = length xs" by simp
    moreover have "xs' ! nat d =
        (if masterRank ov d = p
         then (case lastPos d (a # ds) of Some k \<Rightarrow> vals ! (j + k) | None \<Rightarrow> xs ! nat d)
         else xs ! nat d)" if d: "0 \<le> d" "d < int (length xs)" for d
    proof -
      from Cons.IH[OF r] d xs1 have
        "xs' ! nat d = (if masterRank ov d = p
         then (case lastPos d ds of Some k \<Rightarrow> vals ! (Suc j + k) | None \<Rightarrow> xs1 ! nat d)
         else xs1 ! nat d)" by simp
      moreover have "nat a = nat d \<longleftrightarrow> a = d" using a d by auto
      ultimately show ?thesis using xs1 vj a d True
        by (auto split: option.splits simp: nth_list_update)
    qed
    ultimately show ?thesis by blast
  next
    case False
    with Cons.prems have r: "copyFromMaster ov p ds (Suc j) vals xs = Inr xs'" by simp
    from Cons.IH[OF r] False show ?thesis
      by (auto split: option.splits)
  qed
qed

lemma receiveFromMaster_result:
  assumes "receiveFromMaster ov inbox st p = Inr st'"
  shows "length (rows st') = length (rows st)"
    and "indicesRecvBuff st' = indicesRecvBuff st"
    and "indicesSendBuff st' = indicesSendBuff st"
    and "numIndicesSendBuff st' = numIndicesSendBuff st"
    and "valuesSendBuff st' = valuesSendBuff st"
    and "0 \<le> d \<Longrightarrow> d < int (length (rows st)) \<Longrightarrow>
         rows st' ! nat d =
           (if masterRank ov d = p
            then (case lastReceived (indicesRecvBuff st p) (inbox p) d of
                    Some v \<Rightarrow> v | None \<Rightarrow> rows st ! nat d)
            else rows st ! nat d)"
proof -
  from assms obtain ds buf vals xs' where
    ds: "indicesRecvBuff st p = Some ds" and "valuesRecvBuff st p = Some buf"
    and m: "inbox p = Some vals"
    and c: "copyFromMaster ov p ds 0 vals (rows st) = Inr xs'"
    and st': "st' = st\<lparr>rows := xs', valuesRecvBuff := (valuesRecvBuff st)(p \<mapsto> vals)\<rparr>"
    by (auto simp: receiveFromMaster_def bindE_eq_Inr mpiReceive_eq_Inr split: option.splits)
  note r = copyFromMaster_result[OF c]
  show "length (rows st') = length (rows st)" using r st' by simp
  show "indicesRecvBuff st' = indicesRecvBuff st" using st' by simp
  show "indicesSendBuff st' = indicesSendBuff st" using st' by simp
  show "numIndicesSendBuff st' = numIndicesSendBuff st" using st' by simp
  show "valuesSendBuff st' = valuesSendBuff st" using st' by simp
  show "rows st' ! nat d =
           (if masterRank ov d = p
            then (case lastReceived (indicesRecvBuff st p) (inbox p) d of
                    Some v \<Rightarrow> v | None \<Rightarrow> rows st ! nat d)
            else rows st ! nat d)" if "0 \<le> d" "d < int (length (rows st))"
    using r that st' ds m by (auto simp: lastReceived_def split: option.splits)
qed

lemma forEachPeer_fromMaster:
  "forEachPeer (receiveFromMaster ov inbox) ps st = Inr st' \<Longrightarrow>
   length (rows st') = length (rows st) \<and>
   indicesRecvBuff st' = indicesRecvBuff st \<and>
   (\<forall>d. 0 \<le> d \<and> d < int (length (rows st)) \<longrightarrow>
      rows st' ! nat d =
        (if masterRank ov d \<in> set ps
         then (case lastReceived (indicesRecvBuff st (masterRank ov d)) (inbox (masterRank ov d)) d of
                 Some v \<Rightarrow> v | None \<Rightarrow> rows st ! nat d)
         else rows st ! nat d))"
proof (induction ps arbitrary: st)
  case Nil
  then show ?case by simp
next
  case (Cons p ps)
  from Cons.prems obtain st1 where
    s1: "receiveFromMaster ov inbox st p = Inr st1"
    and r: "forEachPeer (receiveFromMaster ov inbox) ps st1 = Inr st'"
    by (auto simp: bindE_eq_Inr)
  note a = receiveFromMaster_result[OF s1]
  note b = Cons.IH[OF r]
  show ?case
  proof (intro conjI allI impI)
    show "length (rows st') = length (rows st)" using a(1) b by simp
    show "indicesRecvBuff st' = indicesRecvBuff st" using a(2) b by simp
  next
    fix d assume d: "0 \<le> d \<and> d < int (length (rows st))"
    then have "rows st1 ! nat d =
           (if masterRank ov d = p
            then (case lastReceived (indicesRecvBuff st p) (inbox p) d of
                    Some v \<Rightarrow> v | None \<Rightarrow> rows st ! nat d)
            else rows st ! nat d)" using a(6) by simp
    moreover have "rows st' ! nat d =
        (if masterRank ov d \<in> set ps
         then (case lastReceived (indicesRecvBuff st (masterRank ov d)) (inbox (masterRank ov d)) d of
                 Some v \<Rightarrow> v | None \<Rightarrow> rows st1 ! nat d)
         else rows st1 ! nat d)" using b d a(1,2) by simp
    ultimately show "rows st' ! nat d =
        (if masterRank ov d \<in> set (p # ps)
         then (case lastReceived (indicesRecvBuff st (masterRank ov d)) (inbox (masterRank ov d)) d of
                 Some v \<Rightarrow> v | None \<Rightarrow> rows st ! nat d)
         else rows st ! nat d)"
      by (auto split: option.splits)
  qed
qed

lemma sync_phases:
  assumes "sync ov inbox st = Inr st'"
  obtains st1 where "forEachPeer sendEntries (peerSet ov) st = Inr st1"
    and "forEachPeer (receiveFromMaster ov inbox) (peerSet ov) st1 = Inr st'"
proof -
  from assms obtain st1 st2 where
    s: "forEachPeer sendEntries (peerSet ov) st = Inr st1"
    and r: "forEachPeer (receiveFromMaster ov inbox) (peerSet ov) st1 = Inr st2"
    and w: "waitSendFinished ov st2 = Inr st'"
    by (auto simp: sync_def bindE_eq_Inr)
  from w have "st' = st2" by (rule waitSendFinished_id)
  with s r that show thesis by simp
qed

lemma sync_rows:
  assumes "sync ov inbox st = Inr st'"
  shows "length (rows st') = length (rows st)"
    and "0 \<le> d \<Longrightarrow> d < int (length (rows st)) \<Longrightarrow>
         rows st' ! nat d =
           (case fromMaster ov inbox st d of Some v \<Rightarrow> v | None \<Rightarrow> rows st ! nat d)"
proof -
  from assms obtain st1 where
    s: "forEachPeer sendEntries (peerSet ov) st = Inr st1"
    and r: "forEachPeer (receiveFromMaster ov inbox) (peerSet ov) st1 = Inr st'"
    by (rule sync_phases)
  note f = sendAll_frame[OF s]
  from forEachPeer_fromMaster[OF r] f(1)
  show "length (rows st') = length (rows st)" by simp
  from forEachPeer_fromMaster[OF r] f(1,2)
  show "rows st' ! nat d =
           (case fromMaster ov inbox st d of Some v \<Rightarrow> v | None \<Rightarrow> rows st ! nat d)"
    if "0 \<le> d" "d < int (length (rows st))"
    using that by (auto simp: fromMaster_def split: option.splits)
qed

text \<open>
  C1. \<open>sync()\<close> overwrites a domestic row with a received value only if the sender is the
  row's master rank: after the call a row holds the value its master rank sent for it (the
  last one, should the master's plan list the row more than once) and otherwise what it
  held before. What any other peer sent for the row is not part of the result, however
  many peers list the row.
\<close>

theorem sync_keeps_only_master_copy:
  assumes "sync ov inbox st = Inr st'"
    and "0 \<le> d" and "d < int (length (rows st))"
  shows "length (rows st') = length (rows st) \<and>
         rows st' ! nat d =
           (case fromMaster ov inbox st d of Some v \<Rightarrow> v | None \<Rightarrow> rows st ! nat d)"
  using sync_rows[OF assms(1)] assms(2,3) by simp

text \<open>Rank 0 in the example: rows 1 and 2 arrive from both peers, each keeps the value of
  its master, and the value rank 1 sends for row 0 is dropped.\<close>

theorem sync_keeps_only_master_copy_witness:
  "\<not> isl (sync ex_ov ex_inbox ex_st) \<and>
   rows (projr (sync ex_ov ex_inbox ex_st)) = [10, 21, 32] \<and>
   rows (projr (sync ex_ov ex_inbox ex_st)) ! nat 1 =
     (case fromMaster ex_ov ex_inbox ex_st 1 of Some v \<Rightarrow> v | None \<Rightarrow> rows ex_st ! nat 1) \<and>
   fromMaster ex_ov ex_inbox ex_st 1 = Some 21"
proof -
  have run: "sync ex_ov ex_inbox ex_st = Inr (projr (sync ex_ov ex_inbox ex_st))"
    and res: "rows (projr (sync ex_ov ex_inbox ex_st)) = [10, 21, 32]"
    by (simp_all add: sync_def receiveFromMaster_def ex_defs)
  have d: "(0::int) \<le> 1" "1 < int (length (rows ex_st))"
    by (simp_all add: ex_st_def)
  have "fromMaster ex_ov ex_inbox ex_st 1 = Some 21"
    by (simp add: fromMaster_def lastReceived_def ex_defs)
  with sync_keeps_only_master_copy[OF run d] run res show ?thesis
    by (metis sum.disc(2))
qed

section \<open>Adding\<close>

lemma addAll_result:
  "addAll ds j vals xs = Inr xs' \<Longrightarrow>
   length xs' = length xs \<and>
   (\<forall>d. 0 \<le> d \<and> d < int (length xs) \<longrightarrow> xs' ! nat d = accumulate d ds j vals (xs ! nat d))"
proof (induction ds arbitrary: j xs)
  case Nil
  then show ?case by simp
next
  case (Cons a ds)
  from Cons.prems obtain xs1 where
    a: "0 \<le> a" "a < int (length xs)" and "0 \<le> int j" "int j < int (length vals)"
    and xs1: "xs1 = xs[nat a := xs ! nat a + vals ! j]"
    and r: "addAll ds (Suc j) vals xs1 = Inr xs'"
    by (auto simp: bindE_eq_Inr readAt_eq_Inr writeAt_eq_Inr)
  have eq: "nat a = nat d \<longleftrightarrow> a = d" if "0 \<le> d" for d using a that by auto
  from Cons.IH[OF r] xs1 a eq show ?case
    by (auto simp: nth_list_update)
qed

lemma addBorder_result:
  "addBorder ov p ds j vals xs = Inr xs' \<Longrightarrow>
   length xs' = length xs \<and>
   (\<forall>d. 0 \<le> d \<and> d < int (length xs) \<longrightarrow>
      xs' ! nat d = mergeBorder ov p d ds j vals (xs ! nat d))"
proof (induction ds arbitrary: j xs)
  case Nil
  then show ?case by simp
next
  case (Cons a ds)
  from Cons.prems obtain xs1 where
    a: "0 \<le> a" "a < int (length xs)"
    and xs1: "xs1 = xs[nat a := (if isBorderWith ov a p then xs ! nat a + vals ! j else vals ! j)]"
    and r: "addBorder ov p ds (Suc j) vals xs1 = Inr xs'"
    by (auto simp: bindE_eq_Inr readAt_eq_Inr writeAt_eq_Inr split: if_splits)
  have eq: "nat a = nat d \<longleftrightarrow> a = d" if "0 \<le> d" for d using a that by auto
  from Cons.IH[OF r] xs1 a eq show ?case
    by (auto simp: nth_list_update)
qed

lemma receiveAdd_result:
  assumes "receiveAdd inbox st p = Inr st'"
  shows "length (rows st') = length (rows st)"
    and "indicesRecvBuff st' = indicesRecvBuff st"
    and "indicesSendBuff st' = indicesSendBuff st"
    and "numIndicesSendBuff st' = numIndicesSendBuff st"
    and "valuesSendBuff st' = valuesSendBuff st"
    and "0 \<le> d \<Longrightarrow> d < int (length (rows st)) \<Longrightarrow>
         rows st' ! nat d = addFromPeer (indicesRecvBuff st) inbox d (rows st ! nat d) p"
proof -
  from assms obtain ds buf vals xs' where
    ds: "indicesRecvBuff st p = Some ds" and "valuesRecvBuff st p = Some buf"
    and m: "inbox p = Some vals"
    and c: "addAll ds 0 vals (rows st) = Inr xs'"
    and st': "st' = st\<lparr>rows := xs', valuesRecvBuff := (valuesRecvBuff st)(p \<mapsto> vals)\<rparr>"
    by (auto simp: receiveAdd_def bindE_eq_Inr mpiReceive_eq_Inr split: option.splits)
  note r = addAll_result[OF c]
  show "length (rows st') = length (rows st)" using r st' by simp
  show "indicesRecvBuff st' = indicesRecvBuff st" using st' by simp
  show "indicesSendBuff st' = indicesSendBuff st" using st' by simp
  show "numIndicesSendBuff st' = numIndicesSendBuff st" using st' by simp
  show "valuesSendBuff st' = valuesSendBuff st" using st' by simp
  show "rows st' ! nat d = addFromPeer (indicesRecvBuff st) inbox d (rows st ! nat d) p"
    if "0 \<le> d" "d < int (length (rows st))"
    using r that st' ds m by (simp add: addFromPeer_def)
qed

lemma receiveAddBorder_result:
  assumes "receiveAddBorder ov inbox st p = Inr st'"
  shows "length (rows st') = length (rows st)"
    and "indicesRecvBuff st' = indicesRecvBuff st"
    and "indicesSendBuff st' = indicesSendBuff st"
    and "numIndicesSendBuff st' = numIndicesSendBuff st"
    and "valuesSendBuff st' = valuesSendBuff st"
    and "0 \<le> d \<Longrightarrow> d < int (length (rows st)) \<Longrightarrow>
         rows st' ! nat d = mergeFromPeer ov (indicesRecvBuff st) inbox d (rows st ! nat d) p"
proof -
  from assms obtain ds buf vals xs' where
    ds: "indicesRecvBuff st p = Some ds" and "valuesRecvBuff st p = Some buf"
    and m: "inbox p = Some vals"
    and c: "addBorder ov p ds 0 vals (rows st) = Inr xs'"
    and st': "st' = st\<lparr>rows := xs', valuesRecvBuff := (valuesRecvBuff st)(p \<mapsto> vals)\<rparr>"
    by (auto simp: receiveAddBorder_def bindE_eq_Inr mpiReceive_eq_Inr split: option.splits)
  note r = addBorder_result[OF c]
  show "length (rows st') = length (rows st)" using r st' by simp
  show "indicesRecvBuff st' = indicesRecvBuff st" using st' by simp
  show "indicesSendBuff st' = indicesSendBuff st" using st' by simp
  show "numIndicesSendBuff st' = numIndicesSendBuff st" using st' by simp
  show "valuesSendBuff st' = valuesSendBuff st" using st' by simp
  show "rows st' ! nat d = mergeFromPeer ov (indicesRecvBuff st) inbox d (rows st ! nat d) p"
    if "0 \<le> d" "d < int (length (rows st))"
    using r that st' ds m by (simp add: mergeFromPeer_def)
qed

lemma syncAdd_phases:
  assumes "syncAdd ov inbox st = Inr st'"
  obtains st1 where "forEachPeer sendEntries (peerSet ov) st = Inr st1"
    and "forEachPeer (receiveAdd inbox) (peerSet ov) st1 = Inr st'"
proof -
  from assms obtain st1 st2 where
    s: "forEachPeer sendEntries (peerSet ov) st = Inr st1"
    and r: "forEachPeer (receiveAdd inbox) (peerSet ov) st1 = Inr st2"
    and w: "waitSendFinished ov st2 = Inr st'"
    by (auto simp: syncAdd_def bindE_eq_Inr)
  from w have "st' = st2" by (rule waitSendFinished_id)
  with s r that show thesis by simp
qed

lemma syncAddBorder_phases:
  assumes "syncAddBorder ov inbox st = Inr st'"
  obtains st1 where "forEachPeer sendEntries (peerSet ov) st = Inr st1"
    and "forEachPeer (receiveAddBorder ov inbox) (peerSet ov) st1 = Inr st'"
proof -
  from assms obtain st1 st2 where
    s: "forEachPeer sendEntries (peerSet ov) st = Inr st1"
    and r: "forEachPeer (receiveAddBorder ov inbox) (peerSet ov) st1 = Inr st2"
    and w: "waitSendFinished ov st2 = Inr st'"
    by (auto simp: syncAddBorder_def bindE_eq_Inr)
  from w have "st' = st2" by (rule waitSendFinished_id)
  with s r that show thesis by simp
qed

text \<open>
  C3. In \<open>syncAddBorder()\<close> the merge is decided for each incoming pair of row and sending
  peer: running through the peers in the order of the peer set and through each peer's
  receive plan in order, a value for row \<open>d\<close> from peer \<open>p\<close> is added to what the row holds
  at that moment if \<open>isBorderWith(d, p)\<close>, and replaces it otherwise. One row can so be
  added to for one peer and overwritten for another in the same call.
\<close>

theorem syncAddBorder_decides_per_row_and_peer:
  assumes "syncAddBorder ov inbox st = Inr st'"
    and "0 \<le> d" and "d < int (length (rows st))"
  shows "rows st' ! nat d =
         foldl (mergeFromPeer ov (indicesRecvBuff st) inbox d) (rows st ! nat d) (peerSet ov)"
proof -
  from assms(1) obtain st1 where
    s: "forEachPeer sendEntries (peerSet ov) st = Inr st1"
    and r: "forEachPeer (receiveAddBorder ov inbox) (peerSet ov) st1 = Inr st'"
    by (rule syncAddBorder_phases)
  note f = sendAll_frame[OF s]
  have "rows st' ! nat d =
      foldl (mergeFromPeer ov (indicesRecvBuff st1) inbox d) (rows st1 ! nat d) (peerSet ov)"
    using forEachPeer_rowwise[where f = "receiveAddBorder ov inbox"
        and g = "\<lambda>plans. mergeFromPeer ov plans inbox", OF _ _ _ r]
      assms(2,3) f(1)
    by (simp add: receiveAddBorder_result)
  then show ?thesis using f(1,2) by simp
qed

text \<open>In the example row 1 is overwritten with the 21 of rank 1 and then gets the 22 of
  rank 2 added; row 2 gets the 31 of rank 1 added and is then overwritten with the 32 of
  rank 2.\<close>

theorem syncAddBorder_decides_per_row_and_peer_witness:
  "\<not> isl (syncAddBorder ex_ov ex_inbox ex_st) \<and>
   rows (projr (syncAddBorder ex_ov ex_inbox ex_st)) = [99, 43, 32] \<and>
   rows (projr (syncAddBorder ex_ov ex_inbox ex_st)) ! nat 1 =
     foldl (mergeFromPeer ex_ov (indicesRecvBuff ex_st) ex_inbox 1) (rows ex_st ! nat 1)
       (peerSet ex_ov) \<and>
   mergeFromPeer ex_ov (indicesRecvBuff ex_st) ex_inbox 1 20 1 = 21 \<and>
   mergeFromPeer ex_ov (indicesRecvBuff ex_st) ex_inbox 1 21 2 = 21 + 22"
proof -
  have run: "syncAddBorder ex_ov ex_inbox ex_st = Inr (projr (syncAddBorder ex_ov ex_inbox ex_st))"
    and res: "rows (projr (syncAddBorder ex_ov ex_inbox ex_st)) = [99, 43, 32]"
    by (simp_all add: syncAddBorder_def receiveAddBorder_def ex_defs)
  have d: "(0::int) \<le> 1" "1 < int (length (rows ex_st))"
    by (simp_all add: ex_st_def)
  have "mergeFromPeer ex_ov (indicesRecvBuff ex_st) ex_inbox 1 20 1 = 21"
    and "mergeFromPeer ex_ov (indicesRecvBuff ex_st) ex_inbox 1 21 2 = 21 + 22"
    by (simp_all add: mergeFromPeer_def ex_defs)
  with syncAddBorder_decides_per_row_and_peer[OF run d] run res show ?thesis
    by (metis sum.disc(2))
qed

text \<open>
  C4. \<open>syncAdd()\<close> adds without any test: for every peer, in the order of the peer set, and
  every position of that peer's receive plan, the incoming value is added to the row the
  position names. Neither the master rank nor the border status of the row is looked at.
\<close>

theorem syncAdd_adds_every_value:
  assumes "syncAdd ov inbox st = Inr st'"
    and "0 \<le> d" and "d < int (length (rows st))"
  shows "rows st' ! nat d =
         foldl (addFromPeer (indicesRecvBuff st) inbox d) (rows st ! nat d) (peerSet ov)"
proof -
  from assms(1) obtain st1 where
    s: "forEachPeer sendEntries (peerSet ov) st = Inr st1"
    and r: "forEachPeer (receiveAdd inbox) (peerSet ov) st1 = Inr st'"
    by (rule syncAdd_phases)
  note f = sendAll_frame[OF s]
  have "rows st' ! nat d =
      foldl (addFromPeer (indicesRecvBuff st1) inbox d) (rows st1 ! nat d) (peerSet ov)"
    using forEachPeer_rowwise[where f = "receiveAdd inbox"
        and g = "\<lambda>plans. addFromPeer plans inbox", OF _ _ _ r]
      assms(2,3) f(1)
    by (simp add: receiveAdd_result)
  then show ?thesis using f(1,2) by simp
qed

text \<open>In the example every row is the sum of what it held and of all that arrived for it:
  the own row 0, and rows 1 and 2 whether the sender is their master or not.\<close>

theorem syncAdd_adds_every_value_witness:
  "\<not> isl (syncAdd ex_ov ex_inbox ex_st) \<and>
   rows (projr (syncAdd ex_ov ex_inbox ex_st)) = [10 + 99, 20 + 21 + 22, 30 + 31 + 32] \<and>
   rows (projr (syncAdd ex_ov ex_inbox ex_st)) ! nat 1 =
     foldl (addFromPeer (indicesRecvBuff ex_st) ex_inbox 1) (rows ex_st ! nat 1) (peerSet ex_ov)"
proof -
  have run: "syncAdd ex_ov ex_inbox ex_st = Inr (projr (syncAdd ex_ov ex_inbox ex_st))"
    and res: "rows (projr (syncAdd ex_ov ex_inbox ex_st)) = [10 + 99, 20 + 21 + 22, 30 + 31 + 32]"
    by (simp_all add: syncAdd_def receiveAdd_def ex_defs)
  have d: "(0::int) \<le> 1" "1 < int (length (rows ex_st))"
    by (simp_all add: ex_st_def)
  from syncAdd_adds_every_value[OF run d] run res show ?thesis
    by (metis sum.disc(2))
qed

section \<open>Import and export\<close>

lemma assignLocalRows_result:
  "assignLocalRows ov V ds xs = Inr xs' \<Longrightarrow>
   length xs' = length xs \<and>
   (\<forall>d. 0 \<le> d \<and> d < int (length xs) \<longrightarrow>
      xs' ! nat d = (if d \<in> set ds then localValue ov V d else xs ! nat d))"
proof (induction ds arbitrary: xs)
  case Nil
  then show ?case by simp
next
  case (Cons a ds)
  from Cons.prems obtain xs1 where
    a: "0 \<le> a" "a < int (length xs)"
    and xs1: "xs1 = xs[nat a := localValue ov V a]"
    and r: "assignLocalRows ov V ds xs1 = Inr xs'"
    by (auto simp: bindE_eq_Inr readAt_eq_Inr writeAt_eq_Inr localValue_def split: if_splits)
  have eq: "nat a = nat d \<longleftrightarrow> a = d" if "0 \<le> d" for d using a that by auto
  from Cons.IH[OF r] xs1 a eq show ?case
    by (auto simp: nth_list_update)
qed

lemma assignLocalRows_in_range:
  "assignLocalRows ov V ds xs = Inr xs' \<Longrightarrow> d \<in> set ds \<Longrightarrow>
   0 \<le> d \<and> d < int (length xs) \<and>
   (0 \<le> domesticToNative ov d \<longrightarrow> domesticToNative ov d < int (length V))"
proof (induction ds arbitrary: xs)
  case Nil
  then show ?case by simp
next
  case (Cons a ds)
  from Cons.prems(1) obtain xs1 where
    a: "0 \<le> a" "a < int (length xs)"
      "0 \<le> domesticToNative ov a \<longrightarrow> domesticToNative ov a < int (length V)"
    and xs1: "xs1 = xs[nat a := localValue ov V a]"
    and r: "assignLocalRows ov V ds xs1 = Inr xs'"
    by (auto simp: bindE_eq_Inr readAt_eq_Inr writeAt_eq_Inr localValue_def split: if_splits)
  from Cons.IH[OF r] Cons.prems(2) a xs1 show ?case by auto
qed

lemma exportRows_result:
  "exportRows ov xs ns W = Inr W' \<Longrightarrow>
   length W' = length W \<and>
   (\<forall>n. 0 \<le> n \<and> n < int (length W) \<longrightarrow>
      W' ! nat n = (if n \<in> set ns then exportedValue ov xs n else W ! nat n))"
proof (induction ns arbitrary: W)
  case Nil
  then show ?case by simp
next
  case (Cons a ns)
  from Cons.prems obtain W1 where
    a: "0 \<le> a" "a < int (length W)"
    and W1: "W1 = W[nat a := exportedValue ov xs a]"
    and r: "exportRows ov xs ns W1 = Inr W'"
    by (auto simp: bindE_eq_Inr readAt_eq_Inr writeAt_eq_Inr exportedValue_def split: if_splits)
  have eq: "nat a = nat n \<longleftrightarrow> a = n" if "0 \<le> n" for n using a that by auto
  from Cons.IH[OF r] W1 a eq show ?case
    by (auto simp: nth_list_update)
qed

lemma resize_eq_Inr: "resize xs n = Inr ys \<Longrightarrow> 0 \<le> n \<and> length ys = nat n"
  by (auto simp: resize_def split: if_splits)

lemma assignTo_result:
  assumes "assignTo ov st target = Inr (st', target')"
  shows "st' = st" and "int (length target') = numNative ov"
    and "0 \<le> n \<Longrightarrow> n < numNative ov \<Longrightarrow> target' ! nat n = exportedValue ov (rows st) n"
proof -
  from assms obtain nbv where
    rs: "resize target (numNative ov) = Inr nbv"
    and ex: "exportRows ov (rows st) (indexRange (numNative ov)) nbv = Inr target'"
    and st: "st' = st"
    by (auto simp: assignTo_def bindE_eq_Inr)
  from resize_eq_Inr[OF rs] have n: "0 \<le> numNative ov" "length nbv = nat (numNative ov)"
    by simp_all
  show "st' = st" by (rule st)
  from exportRows_result[OF ex] n show "int (length target') = numNative ov" by simp
  from exportRows_result[OF ex] n
  show "target' ! nat n = exportedValue ov (rows st) n" if "0 \<le> n" "n < numNative ov"
    using that by (simp add: in_indexRange)
qed

text \<open>
  C6. \<open>assignTo(target)\<close> resizes the target to \<open>numNative()\<close> and sets \<open>target[n]\<close>, for
  every native row index \<open>n\<close>, to the domestic row \<open>nativeToDomestic(n)\<close> when that index is
  not negative and to zero when it is. It takes no message and sends none (it has no
  inbox and writes no send buffer), and it returns the overlapping vector as it was.
\<close>

theorem assignTo_projects_locally:
  assumes "assignTo ov st target = Inr (st', target')"
  shows "st' = st \<and> int (length target') = numNative ov \<and>
         (\<forall>n. 0 \<le> n \<and> n < numNative ov \<longrightarrow>
            target' ! nat n =
              (if nativeToDomestic ov n < 0 then 0 else rows st ! nat (nativeToDomestic ov n)))"
  using assignTo_result[OF assms] by (simp add: exportedValue_def)

text \<open>The example with another translation: native row 0 is domestic row 2, native row 1
  has no domestic row.\<close>

theorem assignTo_projects_locally_witness:
  "assignTo (ex_ov\<lparr>nativeToDomestic := (\<lambda>n. if n = 0 then 2 else - 1)\<rparr>) ex_st [1, 2, 3]
     = Inr (ex_st, [30, 0]) \<and>
   int (length [30, 0 :: int]) = numNative ex_ov \<and>
   [30, 0] ! nat 0 = rows ex_st ! nat 2 \<and> [30, 0 :: int] ! nat 1 = 0"
proof -
  have run: "assignTo (ex_ov\<lparr>nativeToDomestic := (\<lambda>n. if n = 0 then 2 else - 1)\<rparr>) ex_st [1, 2, 3]
     = Inr (ex_st, [30, 0])"
    by (simp add: assignTo_def resize_def ex_defs)
  from assignTo_projects_locally[OF run] run show ?thesis
    by (simp add: ex_defs)
qed

section \<open>The index plans\<close>

lemma sync_frame:
  assumes "sync ov inbox st = Inr st'"
  shows "indexPlans st' = indexPlans st"
proof -
  from assms obtain st1 where
    s: "forEachPeer sendEntries (peerSet ov) st = Inr st1"
    and r: "forEachPeer (receiveFromMaster ov inbox) (peerSet ov) st1 = Inr st'"
    by (rule sync_phases)
  have "indexPlans st1 = indexPlans st"
    by (rule forEachPeer_preserves[OF _ s]) (simp add: indexPlans_def sendEntries_frame)
  moreover have "indexPlans st' = indexPlans st1"
    by (rule forEachPeer_preserves[OF _ r]) (simp add: indexPlans_def receiveFromMaster_result)
  ultimately show ?thesis by simp
qed

lemma syncAdd_frame:
  assumes "syncAdd ov inbox st = Inr st'"
  shows "indexPlans st' = indexPlans st"
proof -
  from assms obtain st1 where
    s: "forEachPeer sendEntries (peerSet ov) st = Inr st1"
    and r: "forEachPeer (receiveAdd inbox) (peerSet ov) st1 = Inr st'"
    by (rule syncAdd_phases)
  have "indexPlans st1 = indexPlans st"
    by (rule forEachPeer_preserves[OF _ s]) (simp add: indexPlans_def sendEntries_frame)
  moreover have "indexPlans st' = indexPlans st1"
    by (rule forEachPeer_preserves[OF _ r]) (simp add: indexPlans_def receiveAdd_result)
  ultimately show ?thesis by simp
qed

lemma syncAddBorder_frame:
  assumes "syncAddBorder ov inbox st = Inr st'"
  shows "indexPlans st' = indexPlans st"
proof -
  from assms obtain st1 where
    s: "forEachPeer sendEntries (peerSet ov) st = Inr st1"
    and r: "forEachPeer (receiveAddBorder ov inbox) (peerSet ov) st1 = Inr st'"
    by (rule syncAddBorder_phases)
  have "indexPlans st1 = indexPlans st"
    by (rule forEachPeer_preserves[OF _ s]) (simp add: indexPlans_def sendEntries_frame)
  moreover have "indexPlans st' = indexPlans st1"
    by (rule forEachPeer_preserves[OF _ r]) (simp add: indexPlans_def receiveAddBorder_result)
  ultimately show ?thesis by simp
qed

text \<open>
  C10. A domestic row whose master rank is the local process (\<open>isLocal\<close>) is never written
  by the receive phase of \<open>sync()\<close>, whichever peers list it in their receive plans: the
  local rank is not in its own peer set, so the test \<open>masterRank(domRowIdx) == peerRank\<close>
  fails for every incoming value and the row holds after the call what it held before.
\<close>

theorem sync_leaves_own_rows:
  assumes "sync ov inbox st = Inr st'"
    and "masterRank ov d = myRank" and "myRank \<notin> set (peerSet ov)"
    and "0 \<le> d" and "d < int (length (rows st))"
  shows "rows st' ! nat d = rows st ! nat d"
  using sync_rows(2)[OF assms(1,4,5)] assms(2,3) by (simp add: fromMaster_def)

text \<open>Row 0 of the example belongs to rank 0 itself; rank 1 sends 99 for it, and the row
  keeps its 10.\<close>

theorem sync_leaves_own_rows_witness:
  "\<not> isl (sync ex_ov ex_inbox ex_st) \<and>
   masterRank ex_ov 0 = 0 \<and> isLocal ex_ov 0 \<and> 0 \<notin> set (peerSet ex_ov) \<and>
   0 \<in> set (the (indicesRecvBuff ex_st 1)) \<and>
   rows (projr (sync ex_ov ex_inbox ex_st)) ! nat 0 = rows ex_st ! nat 0"
proof -
  have run: "sync ex_ov ex_inbox ex_st = Inr (projr (sync ex_ov ex_inbox ex_st))"
    by (simp add: sync_def receiveFromMaster_def ex_defs)
  have h: "masterRank ex_ov 0 = 0" "0 \<notin> set (peerSet ex_ov)" "(0::int) \<le> 0"
    "0 < int (length (rows ex_st))" "isLocal ex_ov 0" "0 \<in> set (the (indicesRecvBuff ex_st 1))"
    by (simp_all add: ex_defs)
  from sync_leaves_own_rows[OF run h(1-4)] run h show ?thesis
    by (metis sum.disc(2))
qed

lemmas ex_cl_defs =
  ex_cl_def ex_ov0_def ex_ov1_def ex_vec0_def ex_vec1_def ex_natives_def
  syncEverywhere_def everyRank_def syncOn_def sentTo_def sync_def receiveFromMaster_def
  sendEntries_def waitSendFinished_def waitSend_def
  readAt_def writeAt_def mpiReceive_def indexRange_def upt_conv_Cons

section \<open>Building the plans\<close>

lemma sendIndices_plans:
  "\<forall>p \<in> set ps. 0 \<le> foreignOverlapSize ov p \<Longrightarrow>
   \<exists>st'. forEachPeer (sendIndices ov uninit) ps st = Inr st' \<and>
     rows st' = rows st \<and> indicesRecvBuff st' = indicesRecvBuff st \<and>
     (\<forall>p. numIndicesSendBuff st' p =
        (if p \<in> set ps then Some [foreignOverlapSize ov p] else numIndicesSendBuff st p)) \<and>
     (\<forall>p. indicesSendBuff st' p =
        (if p \<in> set ps then Some (sentGlobals ov p) else indicesSendBuff st p))"
proof (induction ps arbitrary: st)
  case Nil
  then show ?case by simp
next
  case (Cons p ps)
  let ?s1 = "st\<lparr>
        numIndicesSendBuff := (numIndicesSendBuff st)(p \<mapsto> [foreignOverlapSize ov p]),
        indicesSendBuff := (indicesSendBuff st)(p \<mapsto> sentGlobals ov p),
        valuesSendBuff := (valuesSendBuff st)(p \<mapsto>
          map uninit [0..<nat (foreignOverlapSize ov p)])\<rparr>"
  from Cons.prems have s1: "sendIndices ov uninit st p = Inr ?s1"
    by (simp add: sendIndices_def sentGlobals_def)
  from Cons.prems have "\<forall>p \<in> set ps. 0 \<le> foreignOverlapSize ov p" by simp
  from Cons.IH[OF this, of ?s1] obtain st' where
    r: "forEachPeer (sendIndices ov uninit) ps ?s1 = Inr st'"
    and f: "rows st' = rows ?s1" "indicesRecvBuff st' = indicesRecvBuff ?s1"
    and n: "\<forall>q. numIndicesSendBuff st' q =
        (if q \<in> set ps then Some [foreignOverlapSize ov q] else numIndicesSendBuff ?s1 q)"
    and i: "\<forall>q. indicesSendBuff st' q =
        (if q \<in> set ps then Some (sentGlobals ov q) else indicesSendBuff ?s1 q)"
    by blast
  have "forEachPeer (sendIndices ov uninit) (p # ps) st = Inr st'"
    using s1 r by simp
  moreover have "rows st' = rows st" "indicesRecvBuff st' = indicesRecvBuff st"
    using f by simp_all
  moreover have "\<forall>q. numIndicesSendBuff st' q =
        (if q \<in> set (p # ps) then Some [foreignOverlapSize ov q] else numIndicesSendBuff st q)"
    using n by simp
  moreover have "\<forall>q. indicesSendBuff st' q =
        (if q \<in> set (p # ps) then Some (sentGlobals ov q) else indicesSendBuff st q)"
    using i by simp
  ultimately show ?case by blast
qed

lemma receiveIndices_all:
  "\<forall>p \<in> set ps. \<exists>gs. indexInbox p = Some gs \<and> countInbox p = Some [int (length gs)] \<Longrightarrow>
   \<exists>st'. forEachPeer (receiveIndices ov countInbox indexInbox uninit) ps st = Inr st' \<and>
     numIndicesSendBuff st' = numIndicesSendBuff st \<and>
     indicesSendBuff st' = indicesSendBuff st \<and>
     (\<forall>p. indicesRecvBuff st' p =
        (if p \<in> set ps then map_option (map (globalToDomestic ov)) (indexInbox p)
         else indicesRecvBuff st p))"
proof (induction ps arbitrary: st)
  case Nil
  then show ?case by simp
next
  case (Cons p ps)
  from Cons.prems obtain gs where
    gs: "indexInbox p = Some gs" "countInbox p = Some [int (length gs)]" by auto
  let ?s1 = "st\<lparr>
      indicesRecvBuff := (indicesRecvBuff st)(p \<mapsto> map (globalToDomestic ov) gs),
      valuesRecvBuff := (valuesRecvBuff st)(p \<mapsto> map uninit [0..<length gs])\<rparr>"
  have s1: "receiveIndices ov countInbox indexInbox uninit st p = Inr ?s1"
    using gs by (simp add: receiveIndices_def mpiReceive_def)
  from Cons.prems have
    "\<forall>p \<in> set ps. \<exists>gs. indexInbox p = Some gs \<and> countInbox p = Some [int (length gs)]" by simp
  from Cons.IH[OF this, of ?s1] obtain st' where
    r: "forEachPeer (receiveIndices ov countInbox indexInbox uninit) ps ?s1 = Inr st'"
    and f: "numIndicesSendBuff st' = numIndicesSendBuff ?s1" "indicesSendBuff st' = indicesSendBuff ?s1"
    and i: "\<forall>q. indicesRecvBuff st' q =
        (if q \<in> set ps then map_option (map (globalToDomestic ov)) (indexInbox q)
         else indicesRecvBuff ?s1 q)"
    by blast
  have "forEachPeer (receiveIndices ov countInbox indexInbox uninit) (p # ps) st = Inr st'"
    using s1 r by simp
  moreover have "numIndicesSendBuff st' = numIndicesSendBuff st" "indicesSendBuff st' = indicesSendBuff st"
    using f by simp_all
  moreover have "\<forall>q. indicesRecvBuff st' q =
        (if q \<in> set (p # ps) then map_option (map (globalToDomestic ov)) (indexInbox q)
         else indicesRecvBuff st q)"
    using i gs by auto
  ultimately show ?case by blast
qed

lemma convertSendIndices_all:
  "\<forall>p \<in> set ps. p \<in> dom (numIndicesSendBuff st) \<and> p \<in> dom (indicesSendBuff st) \<Longrightarrow>
   \<exists>st'. forEachPeer (convertSendIndices ov) ps st = Inr st' \<and>
     indicesRecvBuff st' = indicesRecvBuff st"
proof (induction ps arbitrary: st)
  case Nil
  then show ?case by simp
next
  case (Cons p ps)
  from Cons.prems obtain n ds where
    b: "numIndicesSendBuff st p = Some n" "indicesSendBuff st p = Some ds" by auto
  let ?s1 = "st\<lparr>indicesSendBuff := (indicesSendBuff st)(p \<mapsto> map (globalToDomestic ov) ds)\<rparr>"
  have s1: "convertSendIndices ov st p = Inr ?s1"
    using b by (simp add: convertSendIndices_def)
  from Cons.prems have
    "\<forall>q \<in> set ps. q \<in> dom (numIndicesSendBuff ?s1) \<and> q \<in> dom (indicesSendBuff ?s1)" by auto
  from Cons.IH[OF this] obtain st' where
    "forEachPeer (convertSendIndices ov) ps ?s1 = Inr st'"
    "indicesRecvBuff st' = indicesRecvBuff ?s1" by blast
  with s1 show ?case by simp
qed

text \<open>
  C2 (as the code has it). While the buffer plans are built no received global index is
  tested: when every peer's two messages arrive and fit (a count that is not negative and
  as many indices) and no \<open>foreignOverlapSize\<close> is negative, \<open>createBuffers_\<close> returns,
  and the receive plan for a peer is the list of the indices it sent with
  \<open>globalToDomestic\<close> applied to each, whatever that gives. An index without domestic
  counterpart does not stop the construction; its negative translation is stored.
\<close>

theorem createBuffers_stores_untranslated_index:
  assumes "\<forall>p \<in> set (peerSet ov). 0 \<le> foreignOverlapSize ov p"
    and "\<forall>p \<in> set (peerSet ov).
           \<exists>gs. indexInbox p = Some gs \<and> countInbox p = Some [int (length gs)]"
  shows "\<exists>st'. createBuffers True ov countInbox indexInbox uninit st = Inr st' \<and>
           (\<forall>p \<in> set (peerSet ov).
              indicesRecvBuff st' p = map_option (map (globalToDomestic ov)) (indexInbox p))"
proof -
  from sendIndices_plans[OF assms(1), of uninit st] obtain st1 where
    s1: "forEachPeer (sendIndices ov uninit) (peerSet ov) st = Inr st1"
    and n1: "\<forall>p. numIndicesSendBuff st1 p =
        (if p \<in> set (peerSet ov) then Some [foreignOverlapSize ov p] else numIndicesSendBuff st p)"
    and i1: "\<forall>p. indicesSendBuff st1 p =
        (if p \<in> set (peerSet ov) then Some (sentGlobals ov p) else indicesSendBuff st p)"
    by blast
  have d1: "\<forall>p \<in> set (peerSet ov). p \<in> dom (numIndicesSendBuff st1) \<and> p \<in> dom (indicesSendBuff st1)"
    using n1 i1 by (auto simp: dom_def)
  from receiveIndices_all[OF assms(2), of ov uninit st1] obtain st2 where
    s2: "forEachPeer (receiveIndices ov countInbox indexInbox uninit) (peerSet ov) st1 = Inr st2"
    and f2: "numIndicesSendBuff st2 = numIndicesSendBuff st1" "indicesSendBuff st2 = indicesSendBuff st1"
    and r2: "\<forall>p \<in> set (peerSet ov).
        indicesRecvBuff st2 p = map_option (map (globalToDomestic ov)) (indexInbox p)"
    by (metis (no_types, lifting))
  from d1 f2 have "\<forall>p \<in> set (peerSet ov). p \<in> dom (numIndicesSendBuff st2) \<and> p \<in> dom (indicesSendBuff st2)"
    by simp
  from convertSendIndices_all[OF this, of ov] obtain st3 where
    s3: "forEachPeer (convertSendIndices ov) (peerSet ov) st2 = Inr st3"
    and r3: "indicesRecvBuff st3 = indicesRecvBuff st2" by blast
  from s1 s2 s3 have "createBuffers True ov countInbox indexInbox uninit st = Inr st3"
    by (simp add: createBuffers_def)
  with r2 r3 show ?thesis by simp
qed

text \<open>Rank 0 of the example builds its plans; \<open>globalToDomestic\<close> has no row for the
  second index of rank 1.\<close>

theorem createBuffers_stores_untranslated_index_witness:
  "(0 \<le> foreignOverlapSize ex_ov 1 \<and> 0 \<le> foreignOverlapSize ex_ov 2) \<and>
   ex_indexInbox 1 = Some [11, 99] \<and> ex_countInbox 1 = Some [int (length [11, 99 :: int])] \<and>
   \<not> isl (createBuffers True ex_ov ex_countInbox ex_indexInbox (\<lambda>i. 0) ex_st) \<and>
   indicesRecvBuff (projr (createBuffers True ex_ov ex_countInbox ex_indexInbox (\<lambda>i. 0) ex_st)) 1
     = Some (map (globalToDomestic ex_ov) [11, 99])"
proof -
  have h1: "\<forall>p \<in> set (peerSet ex_ov). 0 \<le> foreignOverlapSize ex_ov p"
    by (simp add: ex_defs)
  have h2: "\<forall>p \<in> set (peerSet ex_ov).
      \<exists>gs. ex_indexInbox p = Some gs \<and> ex_countInbox p = Some [int (length gs)]"
    by (simp add: ex_countInbox_def ex_indexInbox_def ex_defs)
  from createBuffers_stores_untranslated_index[OF h1 h2, of "\<lambda>i. 0" ex_st]
  obtain st' where
    run: "createBuffers True ex_ov ex_countInbox ex_indexInbox (\<lambda>i. 0) ex_st = Inr st'"
    and plans: "\<forall>p \<in> set (peerSet ex_ov).
        indicesRecvBuff st' p = map_option (map (globalToDomestic ex_ov)) (ex_indexInbox p)"
    by blast
  have "1 \<in> set (peerSet ex_ov)" by (simp add: ex_defs)
  with plans have "indicesRecvBuff st' 1 = map_option (map (globalToDomestic ex_ov)) (ex_indexInbox 1)"
    by blast
  moreover have "ex_indexInbox 1 = Some [11, 99]" "ex_countInbox 1 = Some [int (length [11, 99 :: int])]"
    "0 \<le> foreignOverlapSize ex_ov 1 \<and> 0 \<le> foreignOverlapSize ex_ov 2"
    by (simp_all add: ex_countInbox_def ex_indexInbox_def ex_defs)
  ultimately show ?thesis using run by simp
qed

text \<open>The claim as it was stated fails there: the constructor returns, and the receive plan
  for rank 1 holds \<open>- 1\<close> where the index 99 was.\<close>

theorem construct_continues_without_counterpart:
  "globalToDomestic ex_ov 99 < 0 \<and>
   \<not> isl (construct True ex_ov ex_countInbox ex_indexInbox (\<lambda>i. 0 :: int)) \<and>
   indicesRecvBuff (projr (construct True ex_ov ex_countInbox ex_indexInbox (\<lambda>i. 0 :: int))) 1
     = Some [1, - 1]"
  by (simp add: construct_def blankVector_def createBuffers_def sendIndices_def receiveIndices_def
      convertSendIndices_def ex_countInbox_def ex_indexInbox_def ex_defs)

section \<open>Import followed by export\<close>

lemma lastPos_None: "lastPos d ds = None \<longleftrightarrow> d \<notin> set ds"
  by (induction ds) (auto split: option.splits)

lemma lastPos_Some: "lastPos d ds = Some k \<Longrightarrow> k < length ds \<and> ds ! k = d"
  by (induction ds arbitrary: k) (auto split: option.splits if_splits)

lemma assign_phases:
  assumes "assign ov inbox V st = Inr st'"
  obtains xs where
    "assignLocalRows ov V (indexRange (numDomestic ov)) (rows st) = Inr xs"
    and "sync ov inbox (st\<lparr>rows := xs\<rparr>) = Inr st'"
  using assms by (auto simp: assign_def bindE_eq_Inr)

lemma assign_rows:
  assumes "assign ov inbox V st = Inr st'"
    and "0 \<le> d" and "d < numDomestic ov"
  shows "d < int (length (rows st))"
    and "length (rows st') = length (rows st)"
    and "rows st' ! nat d =
          (case fromMaster ov inbox st d of Some v \<Rightarrow> v | None \<Rightarrow> localValue ov V d)"
proof -
  from assms(1) obtain xs where
    l: "assignLocalRows ov V (indexRange (numDomestic ov)) (rows st) = Inr xs"
    and s: "sync ov inbox (st\<lparr>rows := xs\<rparr>) = Inr st'"
    by (rule assign_phases)
  from assms(2,3) have m: "d \<in> set (indexRange (numDomestic ov))"
    by (simp add: in_indexRange)
  from assignLocalRows_in_range[OF l m] show r: "d < int (length (rows st))" by simp
  from assignLocalRows_result[OF l] have len: "length xs = length (rows st)" by simp
  from sync_rows(1)[OF s] len show "length (rows st') = length (rows st)" by simp
  from assignLocalRows_result[OF l] m r assms(2)
  have "xs ! nat d = localValue ov V d" by simp
  moreover have "fromMaster ov inbox (st\<lparr>rows := xs\<rparr>) d = fromMaster ov inbox st d"
    by (simp add: fromMaster_def)
  ultimately show "rows st' ! nat d =
          (case fromMaster ov inbox st d of Some v \<Rightarrow> v | None \<Rightarrow> localValue ov V d)"
    using sync_rows(2)[OF s, of d] assms(2) r len by (simp split: option.splits)
qed

text \<open>
  C7 (as the code has it). When \<open>X.assign(V)\<close> followed by \<open>X.assignTo(W)\<close> returns,
  \<open>W[n] = V[n]\<close> at every native index \<open>n\<close> below \<open>numNative()\<close> whose domestic row
  \<open>d = nativeToDomestic(n)\<close> is one of the \<open>numDomestic()\<close> rows, translates back
  (\<open>domesticToNative(d) = n\<close>), and is not taken over from its master rank: either
  \<open>masterRank(d)\<close> is not in the peer set, or the plan by which the process receives
  from \<open>masterRank(d)\<close> does not list \<open>d\<close>.
\<close>

theorem assign_assignTo_round_trip_on_kept_rows:
  assumes "assignThenAssignTo ov inbox V st target = Inr (st', target')"
    and "0 \<le> n" and "n < numNative ov"
    and "0 \<le> nativeToDomestic ov n" and "nativeToDomestic ov n < numDomestic ov"
    and "domesticToNative ov (nativeToDomestic ov n) = n"
    and "masterRank ov (nativeToDomestic ov n) \<in> set (peerSet ov) \<longrightarrow>
         (\<forall>ds. indicesRecvBuff st (masterRank ov (nativeToDomestic ov n)) = Some ds \<longrightarrow>
               nativeToDomestic ov n \<notin> set ds)"
  shows "target' ! nat n = V ! nat n"
proof -
  let ?d = "nativeToDomestic ov n"
  from assms(1) obtain st1 where
    a: "assign ov inbox V st = Inr st1" and t: "assignTo ov st1 target = Inr (st', target')"
    by (auto simp: assignThenAssignTo_def bindE_eq_Inr)
  have "fromMaster ov inbox st ?d = None"
    using assms(7)
    by (auto simp: fromMaster_def lastReceived_def lastPos_None split: option.splits)
  with assign_rows(3)[OF a assms(4,5)] have "rows st1 ! nat ?d = localValue ov V ?d" by simp
  also have "\<dots> = V ! nat n" using assms(2,6) by (simp add: localValue_def)
  finally show ?thesis
    using assignTo_result(3)[OF t assms(2,3)] assms(4) by (simp add: exportedValue_def)
qed

text \<open>Native row 0 of the example is the process's own row 0.\<close>

theorem assign_assignTo_round_trip_on_kept_rows_witness:
  "map_sum id snd (assignThenAssignTo ex_ov ex_inbox ex_V ex_st []) = Inr [7, 21] \<and>
   nativeToDomestic ex_ov 0 = 0 \<and> domesticToNative ex_ov 0 = 0 \<and>
   masterRank ex_ov 0 \<notin> set (peerSet ex_ov) \<and>
   [7, 21] ! nat 0 = ex_V ! nat 0"
proof -
  have run: "assignThenAssignTo ex_ov ex_inbox ex_V ex_st [] =
      Inr (fst (projr (assignThenAssignTo ex_ov ex_inbox ex_V ex_st [])), [7, 21])"
    by (simp add: assignThenAssignTo_def assign_def assignTo_def resize_def sync_def
        receiveFromMaster_def ex_V_def ex_defs numeral_2_eq_2)
  have h: "(0::int) \<le> 0" "0 < numNative ex_ov" "0 \<le> nativeToDomestic ex_ov 0"
    "nativeToDomestic ex_ov 0 < numDomestic ex_ov"
    "domesticToNative ex_ov (nativeToDomestic ex_ov 0) = 0"
    "masterRank ex_ov (nativeToDomestic ex_ov 0) \<in> set (peerSet ex_ov) \<longrightarrow>
         (\<forall>ds. indicesRecvBuff ex_st (masterRank ex_ov (nativeToDomestic ex_ov 0)) = Some ds \<longrightarrow>
               nativeToDomestic ex_ov 0 \<notin> set ds)"
    by (simp_all add: ex_defs)
  have k: "nativeToDomestic ex_ov 0 = 0" "domesticToNative ex_ov 0 = 0"
    "masterRank ex_ov 0 \<notin> set (peerSet ex_ov)"
    by (simp_all add: ex_defs)
  have m: "map_sum id snd (assignThenAssignTo ex_ov ex_inbox ex_V ex_st []) = Inr [7, 21]"
    by (subst run) simp
  from assign_assignTo_round_trip_on_kept_rows[OF run h] m k show ?thesis
    by simp
qed

text \<open>The claim as it was stated fails on native row 1: it is domestic row 1, whose master
  is rank 1, and \<open>assign\<close> ends with the 21 of rank 1 in it, not with the 8 of \<open>V\<close>.\<close>

theorem assign_assignTo_not_left_inverse:
  "map_sum id snd (assignThenAssignTo ex_ov ex_inbox ex_V ex_st []) = Inr [7, 21] \<and>
   ex_V = [7, 8] \<and> 1 < numNative ex_ov \<and> [7, 21 :: int] ! nat 1 \<noteq> ex_V ! nat 1"
  by (simp add: assignThenAssignTo_def assign_def assignTo_def resize_def sync_def
        receiveFromMaster_def ex_V_def ex_defs numeral_2_eq_2)

section \<open>Messages between the processes\<close>

lemma everyRank_Inr:
  assumes "everyRank f cl = Inr cl'"
  shows "ranks cl' = ranks cl" and "overlapOf cl' = overlapOf cl"
    and "r \<in> set (ranks cl) \<Longrightarrow> f r = Inr (vectorOf cl' r)"
    and "r \<notin> set (ranks cl) \<Longrightarrow> vectorOf cl' r = vectorOf cl r"
proof -
  from assms have n: "find (\<lambda>r. isl (f r)) (ranks cl) = None"
    and c: "cl' = cl\<lparr>vectorOf := (\<lambda>r. if r \<in> set (ranks cl) then projr (f r) else vectorOf cl r)\<rparr>"
    by (auto simp: everyRank_def split: option.splits)
  show "ranks cl' = ranks cl" "overlapOf cl' = overlapOf cl" using c by simp_all
  show "f r = Inr (vectorOf cl' r)" if "r \<in> set (ranks cl)"
  proof -
    from n that have "\<not> isl (f r)" by (auto simp: find_None_iff)
    then show ?thesis using c that by (cases "f r") simp_all
  qed
  show "vectorOf cl' r = vectorOf cl r" if "r \<notin> set (ranks cl)"
    using c that by simp
qed

lemma copyToSendBuffer_result:
  "copyToSendBuffer xs ds i vals = Inr vals' \<Longrightarrow>
   length vals' = length vals \<and>
   (\<forall>k < length ds. 0 \<le> ds ! k \<and> ds ! k < int (length xs) \<and> vals' ! (i + k) = xs ! nat (ds ! k)) \<and>
   (\<forall>j < i. vals' ! j = vals ! j)"
proof (induction ds arbitrary: i vals)
  case Nil
  then show ?case by simp
next
  case (Cons a ds)
  from Cons.prems obtain vals1 where
    a: "0 \<le> a" "a < int (length xs)" and i: "i < length vals"
    and v1: "vals1 = vals[i := xs ! nat a]"
    and r: "copyToSendBuffer xs ds (Suc i) vals1 = Inr vals'"
    by (auto simp: bindE_eq_Inr readAt_eq_Inr writeAt_eq_Inr)
  note ih = Cons.IH[OF r]
  have l: "length vals' = length vals" using ih v1 by simp
  have old: "\<forall>j < i. vals' ! j = vals ! j" using ih v1 by simp
  have here: "vals' ! i = xs ! nat a" using ih v1 i by simp
  have "0 \<le> (a # ds) ! k \<and> (a # ds) ! k < int (length xs) \<and>
        vals' ! (i + k) = xs ! nat ((a # ds) ! k)" if "k < length (a # ds)" for k
  proof (cases k)
    case 0
    then show ?thesis using a here by simp
  next
    case (Suc k')
    with that have "k' < length ds" by simp
    with ih Suc show ?thesis by simp
  qed
  with l old show ?case by blast
qed

lemma sendEntries_message:
  assumes "sendEntries st p = Inr st'"
  shows "indicesSendBuff st p = Some send \<Longrightarrow> carries (rows st) send (valuesSendBuff st' p)"
    and "q \<noteq> p \<Longrightarrow> valuesSendBuff st' q = valuesSendBuff st q"
proof -
  from assms obtain ds vals vals' where
    ds: "indicesSendBuff st p = Some ds" and "valuesSendBuff st p = Some vals"
    and c: "copyToSendBuffer (rows st) ds 0 vals = Inr vals'"
    and st': "st' = st\<lparr>valuesSendBuff := (valuesSendBuff st)(p \<mapsto> vals')\<rparr>"
    by (auto simp: sendEntries_def bindE_eq_Inr split: option.splits)
  from copyToSendBuffer_result[OF c] ds st'
  show "carries (rows st) send (valuesSendBuff st' p)" if "indicesSendBuff st p = Some send"
    using that by (simp add: carries_def)
  show "valuesSendBuff st' q = valuesSendBuff st q" if "q \<noteq> p"
    using st' that by simp
qed

lemma sendAll_message:
  "forEachPeer sendEntries ps st = Inr st' \<Longrightarrow> indicesSendBuff st r = Some send \<Longrightarrow>
   r \<in> set ps \<or> carries (rows st) send (valuesSendBuff st r) \<Longrightarrow>
   carries (rows st) send (valuesSendBuff st' r)"
proof (induction ps arbitrary: st)
  case Nil
  then show ?case by simp
next
  case (Cons p ps)
  from Cons.prems(1) obtain s1 where
    s1: "sendEntries st p = Inr s1" and r: "forEachPeer sendEntries ps s1 = Inr st'"
    by (auto simp: bindE_eq_Inr)
  note f = sendEntries_frame[OF s1]
  have "r \<in> set ps \<or> carries (rows s1) send (valuesSendBuff s1 r)"
  proof (cases "r = p")
    case True
    with sendEntries_message(1)[OF s1] Cons.prems(2) f(1) show ?thesis by simp
  next
    case False
    with sendEntries_message(2)[OF s1] Cons.prems(3) f(1) show ?thesis by auto
  qed
  from Cons.IH[OF r _ this] Cons.prems(2) f(1,3) show ?case by simp
qed

lemma sentTo_carries:
  assumes "sentTo cl q r = Some m" and "indicesSendBuff (vectorOf cl q) r = Some send"
  shows "q \<in> set (ranks cl)" and "carries (rows (vectorOf cl q)) send (Some m)"
proof -
  from assms(1) obtain st1 where
    q: "q \<in> set (ranks cl)" and r: "r \<in> set (peerSet (overlapOf cl q))"
    and s: "forEachPeer sendEntries (peerSet (overlapOf cl q)) (vectorOf cl q) = Inr st1"
    and m: "valuesSendBuff st1 r = Some m"
    by (auto simp: sentTo_def split: if_splits sum.splits)
  show "q \<in> set (ranks cl)" by (rule q)
  from sendAll_message[OF s assms(2)] r m
  show "carries (rows (vectorOf cl q)) send (Some m)" by simp
qed


lemma receiveAll_served:
  "forEachPeer (receiveFromMaster ov inbox) ps st = Inr st' \<Longrightarrow> q \<in> set ps \<Longrightarrow>
   (\<exists>m. inbox q = Some m) \<and> (\<exists>recv. indicesRecvBuff st q = Some recv)"
proof (induction ps arbitrary: st)
  case Nil
  then show ?case by simp
next
  case (Cons p ps)
  from Cons.prems(1) obtain s1 where
    s1: "receiveFromMaster ov inbox st p = Inr s1"
    and r: "forEachPeer (receiveFromMaster ov inbox) ps s1 = Inr st'"
    by (auto simp: bindE_eq_Inr)
  show ?case
  proof (cases "q = p")
    case True
    with s1 show ?thesis
      by (auto simp: receiveFromMaster_def bindE_eq_Inr mpiReceive_eq_Inr split: option.splits)
  next
    case False
    with Cons.prems(2) have "q \<in> set ps" by simp
    from Cons.IH[OF r this] receiveFromMaster_result(2)[OF s1] show ?thesis by simp
  qed
qed

lemma sync_served:
  assumes "sync ov inbox st = Inr st'" and "q \<in> set (peerSet ov)"
  shows "\<exists>m. inbox q = Some m" and "\<exists>recv. indicesRecvBuff st q = Some recv"
proof -
  from assms(1) obtain st1 where
    s: "forEachPeer sendEntries (peerSet ov) st = Inr st1"
    and r: "forEachPeer (receiveFromMaster ov inbox) (peerSet ov) st1 = Inr st'"
    by (rule sync_phases)
  from receiveAll_served[OF r assms(2)] sendAll_frame(2)[OF s]
  show "\<exists>m. inbox q = Some m" and "\<exists>recv. indicesRecvBuff st q = Some recv" by simp_all
qed

lemma sync_plans:
  assumes "sync ov inbox st = Inr st'"
  shows "indicesSendBuff st' = indicesSendBuff st" and "indicesRecvBuff st' = indicesRecvBuff st"
  using sync_frame[OF assms] by (simp_all add: indexPlans_def)

text \<open>What a row received from its master is, in terms of the master's rows.\<close>

lemma syncOn_row_from_master:
  assumes run: "syncOn cl r = Inr st'"
    and co: "coherent cl" and r: "r \<in> set (ranks cl)"
    and d: "0 \<le> d" "d < int (length (rows (vectorOf cl r)))"
    and q: "masterRank (overlapOf cl r) d = q" "q \<in> set (peerSet (overlapOf cl r))"
    and recv: "indicesRecvBuff (vectorOf cl r) q = Some recv"
    and k: "lastPos d recv = Some k"
  shows "\<exists>send. indicesSendBuff (vectorOf cl q) r = Some send \<and> k < length send \<and>
           q \<in> set (ranks cl) \<and>
           0 \<le> send ! k \<and> send ! k < int (length (rows (vectorOf cl q))) \<and>
           masterRank (overlapOf cl q) (send ! k) = q \<and>
           rows st' ! nat d = rows (vectorOf cl q) ! nat (send ! k)"
proof -
  from run have s: "sync (overlapOf cl r) (\<lambda>q. sentTo cl q r) (vectorOf cl r) = Inr st'"
    by (simp add: syncOn_def)
  from sync_served(1)[OF s q(2)] obtain m where m: "sentTo cl q r = Some m" by blast
  from co r q(2) have pa: "plansAgree cl r q" by (simp add: coherent_def)
  with recv obtain send where
    send: "indicesSendBuff (vectorOf cl q) r = Some send" and len: "length recv = length send"
    and own: "\<forall>k \<in> set [0..<length recv].
             masterRank (overlapOf cl r) (recv ! k) = q \<longrightarrow>
             masterRank (overlapOf cl q) (send ! k) = q"
    by (auto simp: plansAgree_def split: option.splits)
  from lastPos_Some[OF k] have kk: "k < length recv" "recv ! k = d" by simp_all
  from sentTo_carries[OF m send] kk(1) len have
    qr: "q \<in> set (ranks cl)"
    and c: "0 \<le> send ! k" "send ! k < int (length (rows (vectorOf cl q)))"
      "m ! k = rows (vectorOf cl q) ! nat (send ! k)"
    by (simp_all add: carries_def)
  from own kk q(1) have o: "masterRank (overlapOf cl q) (send ! k) = q" by simp
  have "fromMaster (overlapOf cl r) (\<lambda>q. sentTo cl q r) (vectorOf cl r) d = Some (m ! k)"
    using q recv m k by (simp add: fromMaster_def lastReceived_def)
  with sync_rows(2)[OF s d] have "rows st' ! nat d = m ! k" by simp
  with send kk len qr c o show ?thesis by simp
qed

text \<open>A row that a process owns is the same before and after the call.\<close>

lemma syncOn_own_row:
  assumes run: "syncOn cl q = Inr st'"
    and co: "coherent cl" and q: "q \<in> set (ranks cl)"
    and s: "0 \<le> s" "s < int (length (rows (vectorOf cl q)))"
    and own: "masterRank (overlapOf cl q) s = q"
  shows "rows st' ! nat s = rows (vectorOf cl q) ! nat s"
proof -
  from run have sy: "sync (overlapOf cl q) (\<lambda>p. sentTo cl p q) (vectorOf cl q) = Inr st'"
    by (simp add: syncOn_def)
  from co q have "q \<notin> set (peerSet (overlapOf cl q))" by (simp add: coherent_def)
  with own have "fromMaster (overlapOf cl q) (\<lambda>p. sentTo cl p q) (vectorOf cl q) s = None"
    by (simp add: fromMaster_def)
  with sync_rows(2)[OF sy s] show ?thesis by simp
qed

lemma syncEverywhere_Inr:
  assumes "syncEverywhere cl = Inr cl'"
  shows "ranks cl' = ranks cl" and "overlapOf cl' = overlapOf cl"
    and "r \<in> set (ranks cl) \<Longrightarrow> syncOn cl r = Inr (vectorOf cl' r)"
  using everyRank_Inr(1-3)[OF assms[unfolded syncEverywhere_def]] by simp_all

lemma syncEverywhere_plans:
  assumes "syncEverywhere cl = Inr cl'" and "r \<in> set (ranks cl)"
  shows "indicesSendBuff (vectorOf cl' r) = indicesSendBuff (vectorOf cl r)"
    and "indicesRecvBuff (vectorOf cl' r) = indicesRecvBuff (vectorOf cl r)"
    and "length (rows (vectorOf cl' r)) = length (rows (vectorOf cl r))"
proof -
  from syncEverywhere_Inr(3)[OF assms]
  have s: "sync (overlapOf cl r) (\<lambda>q. sentTo cl q r) (vectorOf cl r) = Inr (vectorOf cl' r)"
    by (simp add: syncOn_def)
  from sync_plans[OF s] sync_rows(1)[OF s]
  show "indicesSendBuff (vectorOf cl' r) = indicesSendBuff (vectorOf cl r)"
    and "indicesRecvBuff (vectorOf cl' r) = indicesRecvBuff (vectorOf cl r)"
    and "length (rows (vectorOf cl' r)) = length (rows (vectorOf cl r))" by simp_all
qed

section \<open>Synchronising twice\<close>

text \<open>
  C8 (as the code has it). When all processes call \<open>sync()\<close> and then call it again,
  nothing else touching any vector in between, when both calls return, and when the plans
  of the processes are \<open>coherent\<close>, every domestic row of every process holds after the
  second call what it held after the first; the rows the processes start with are
  arbitrary. Coherent plans: no rank is in its own peer set; for every peer \<open>q\<close> of a
  rank \<open>r\<close> the plan by which \<open>r\<close> receives from \<open>q\<close> is as long as the plan by which
  \<open>q\<close> sends to \<open>r\<close>; and where the descriptor of \<open>r\<close> names \<open>q\<close> as the master of the
  row at a position of that receive plan, the descriptor of \<open>q\<close> names \<open>q\<close> as the master
  of the row at the same position of that send plan.
\<close>

theorem sync_twice_is_sync_once:
  assumes one: "syncEverywhere cl = Inr cl1" and two: "syncEverywhere cl1 = Inr cl2"
    and co: "coherent cl" and r: "r \<in> set (ranks cl)"
  shows "rows (vectorOf cl2 r) = rows (vectorOf cl1 r)"
proof (rule nth_equalityI)
  have r1: "r \<in> set (ranks cl1)" using r syncEverywhere_Inr(1)[OF one] by simp
  note ov = syncEverywhere_Inr(2)[OF one]
  from syncEverywhere_Inr(3)[OF one r]
  have s1: "sync (overlapOf cl r) (\<lambda>q. sentTo cl q r) (vectorOf cl r) = Inr (vectorOf cl1 r)"
    by (simp add: syncOn_def)
  from syncEverywhere_Inr(3)[OF two r1]
  have s2: "sync (overlapOf cl r) (\<lambda>q. sentTo cl1 q r) (vectorOf cl1 r) = Inr (vectorOf cl2 r)"
    by (simp add: syncOn_def ov)
  show len: "length (rows (vectorOf cl2 r)) = length (rows (vectorOf cl1 r))"
    using sync_rows(1)[OF s2] .
  fix i assume "i < length (rows (vectorOf cl2 r))"
  then have i1: "i < length (rows (vectorOf cl1 r))" using len by simp
  then have i0: "i < length (rows (vectorOf cl r))" using sync_rows(1)[OF s1] by simp
  let ?d = "int i"
  let ?q = "masterRank (overlapOf cl r) ?d"
  have d1: "0 \<le> ?d" "?d < int (length (rows (vectorOf cl1 r)))" using i1 by simp_all
  have d0: "0 \<le> ?d" "?d < int (length (rows (vectorOf cl r)))" using i0 by simp_all
  show "rows (vectorOf cl2 r) ! i = rows (vectorOf cl1 r) ! i"
  proof (cases "fromMaster (overlapOf cl r) (\<lambda>q. sentTo cl1 q r) (vectorOf cl1 r) ?d")
    case None
    with sync_rows(2)[OF s2 d1] show ?thesis by simp
  next
    case (Some v)
    then have q: "?q \<in> set (peerSet (overlapOf cl r))"
      by (auto simp: fromMaster_def split: if_splits)
    from sync_served(2)[OF s1 q] obtain recv where
      recv: "indicesRecvBuff (vectorOf cl r) ?q = Some recv" by blast
    then have recv1: "indicesRecvBuff (vectorOf cl1 r) ?q = Some recv"
      using sync_plans(2)[OF s1] by simp
    from Some q recv1 obtain k where k: "lastPos ?d recv = Some k"
      by (auto simp: fromMaster_def lastReceived_def split: option.splits)
    from syncOn_row_from_master[OF syncEverywhere_Inr(3)[OF one r] co r d0 refl q recv k]
    obtain send where
      send: "indicesSendBuff (vectorOf cl ?q) r = Some send"
      and qr: "?q \<in> set (ranks cl)"
      and s: "0 \<le> send ! k" "send ! k < int (length (rows (vectorOf cl ?q)))"
      and own: "masterRank (overlapOf cl ?q) (send ! k) = ?q"
      and v1: "rows (vectorOf cl1 r) ! nat ?d = rows (vectorOf cl ?q) ! nat (send ! k)"
      by blast
    have same: "rows (vectorOf cl1 ?q) ! nat (send ! k) = rows (vectorOf cl ?q) ! nat (send ! k)"
      using syncOn_own_row[OF syncEverywhere_Inr(3)[OF one qr] co qr s own] .
    from sync_served(1)[OF s2 q] obtain m1 where m1: "sentTo cl1 ?q r = Some m1" by blast
    have send1: "indicesSendBuff (vectorOf cl1 ?q) r = Some send"
      using syncEverywhere_plans(1)[OF one qr] send by simp
    from lastPos_Some[OF k] have kk: "k < length recv" by simp
    from co r q have "plansAgree cl r ?q" by (simp add: coherent_def)
    with recv send have "length recv = length send"
      by (simp add: plansAgree_def)
    with sentTo_carries(2)[OF m1 send1] kk
    have "m1 ! k = rows (vectorOf cl1 ?q) ! nat (send ! k)" by (simp add: carries_def)
    moreover have "fromMaster (overlapOf cl r) (\<lambda>q. sentTo cl1 q r) (vectorOf cl1 r) ?d = Some (m1 ! k)"
      using q recv1 m1 k by (simp add: fromMaster_def lastReceived_def)
    ultimately have "rows (vectorOf cl2 r) ! nat ?d = rows (vectorOf cl1 ?q) ! nat (send ! k)"
      using sync_rows(2)[OF s2 d1] by simp
    with same v1 show ?thesis by simp
  qed
qed

lemma ex_cl_coherent: "coherent ex_cl"
  by (simp add: coherent_def plansAgree_def ex_cl_defs)

lemma ex_run1: "\<not> isl (syncEverywhere ex_cl)"
  and ex_rows1: "rows (vectorOf (projr (syncEverywhere ex_cl)) 0) = [1, 3]"
    "rows (vectorOf (projr (syncEverywhere ex_cl)) 1) = [3, 1]"
  by (simp_all add: ex_cl_defs)

lemma ex_run2: "\<not> isl (syncEverywhere (projr (syncEverywhere ex_cl)))"
  by (simp add: ex_cl_defs)

text \<open>The two processes exchange their own rows in the first call; the second call changes
  nothing.\<close>

theorem sync_twice_is_sync_once_witness:
  "\<not> isl (syncEverywhere ex_cl) \<and> \<not> isl (syncEverywhere (projr (syncEverywhere ex_cl))) \<and>
   coherent ex_cl \<and>
   rows (vectorOf ex_cl 0) = [1, 2] \<and>
   rows (vectorOf (projr (syncEverywhere ex_cl)) 0) = [1, 3] \<and>
   rows (vectorOf (projr (syncEverywhere (projr (syncEverywhere ex_cl)))) 0) =
     rows (vectorOf (projr (syncEverywhere ex_cl)) 0)"
proof -
  have one: "syncEverywhere ex_cl = Inr (projr (syncEverywhere ex_cl))"
    using ex_run1 by simp
  have two: "syncEverywhere (projr (syncEverywhere ex_cl)) =
      Inr (projr (syncEverywhere (projr (syncEverywhere ex_cl))))"
    using ex_run2 by simp
  have r: "0 \<in> set (ranks ex_cl)" "rows (vectorOf ex_cl 0) = [1, 2]"
    by (simp_all add: ex_cl_def ex_vec0_def)
  from sync_twice_is_sync_once[OF one two ex_cl_coherent r(1)] ex_run1 ex_run2 ex_cl_coherent
    ex_rows1 r(2)
  show ?thesis by simp
qed

lemmas sw_defs =
  sw_cl_def sw_ov0_def sw_ov1_def sw_vec0_def sw_vec1_def sw_natives_def
  un_cl_def un_ov1_def un_vec0_def un_vec1_def

lemmas build_everywhere_defs =
  constructEverywhere_def constructOn_def construct_def blankVector_def
  createBuffers_def sendIndices_def receiveIndices_def convertSendIndices_def
  countSentTo_def indicesSentTo_def indexPlans_def

lemma sw_cl_constructed:
  "\<not> isl (constructEverywhere (ranks sw_cl) (overlapOf sw_cl) (\<lambda>i. 0 :: int))"
  "indexPlans (vectorOf (projr (constructEverywhere (ranks sw_cl) (overlapOf sw_cl) (\<lambda>i. 0 :: int))) 0)
     = indexPlans (vectorOf sw_cl 0)"
  "indexPlans (vectorOf (projr (constructEverywhere (ranks sw_cl) (overlapOf sw_cl) (\<lambda>i. 0 :: int))) 1)
     = indexPlans (vectorOf sw_cl 1)"
  by (simp_all add: build_everywhere_defs sw_defs ex_cl_defs)

lemma sw_cl_sync:
  "\<not> isl (syncEverywhere sw_cl)"
  "rows (vectorOf (projr (syncEverywhere sw_cl)) 0) = [3]"
  "rows (vectorOf (projr (syncEverywhere sw_cl)) 1) = [1]"
  by (simp_all add: sw_defs ex_cl_defs)

lemma sw_cl_sync2:
  "\<not> isl (syncEverywhere (projr (syncEverywhere sw_cl)))"
  "rows (vectorOf (projr (syncEverywhere (projr (syncEverywhere sw_cl)))) 0) = [1]"
  "rows (vectorOf (projr (syncEverywhere (projr (syncEverywhere sw_cl)))) 1) = [3]"
  by (simp_all add: sw_defs ex_cl_defs)

lemma sw_cl_not_coherent: "\<not> coherent sw_cl" "covered sw_cl"
  by (simp_all add: coherent_def plansAgree_def covered_def sw_defs ex_cl_defs)

text \<open>
  The claim as it was stated, for every vector state, fails on the two processes that name
  each other as master; their plans are those the constructors build. The rows are \<open>[1]\<close>
  on rank 0 and \<open>[3]\<close> on rank 1. In the first call each process takes the row of the
  other, \<open>[3]\<close> and \<open>[1]\<close>; in the second call they take them back, \<open>[1]\<close> and \<open>[3]\<close>:
  the second call changes every row.
\<close>

theorem sync_twice_differs_from_once:
  "\<not> isl (constructEverywhere (ranks sw_cl) (overlapOf sw_cl) (\<lambda>i. 0 :: int)) \<and>
   indexPlans (vectorOf (projr (constructEverywhere (ranks sw_cl) (overlapOf sw_cl)
                                  (\<lambda>i. 0 :: int))) 0) = indexPlans (vectorOf sw_cl 0) \<and>
   indexPlans (vectorOf (projr (constructEverywhere (ranks sw_cl) (overlapOf sw_cl)
                                  (\<lambda>i. 0 :: int))) 1) = indexPlans (vectorOf sw_cl 1) \<and>
   rows (vectorOf sw_cl 0) = [1] \<and> rows (vectorOf sw_cl 1) = [3] \<and>
   \<not> isl (syncEverywhere sw_cl) \<and>
   rows (vectorOf (projr (syncEverywhere sw_cl)) 0) = [3] \<and>
   rows (vectorOf (projr (syncEverywhere sw_cl)) 1) = [1] \<and>
   \<not> isl (syncEverywhere (projr (syncEverywhere sw_cl))) \<and>
   rows (vectorOf (projr (syncEverywhere (projr (syncEverywhere sw_cl)))) 0) = [1] \<and>
   rows (vectorOf (projr (syncEverywhere (projr (syncEverywhere sw_cl)))) 1) = [3] \<and>
   masterRank (overlapOf sw_cl 0) 0 = 1 \<and> masterRank (overlapOf sw_cl 1) 0 = 0 \<and>
   \<not> coherent sw_cl"
proof -
  have "rows (vectorOf sw_cl 0) = [1]" "rows (vectorOf sw_cl 1) = [3]"
    "masterRank (overlapOf sw_cl 0) 0 = 1" "masterRank (overlapOf sw_cl 1) 0 = 0"
    by (simp_all add: sw_defs)
  with sw_cl_constructed sw_cl_sync sw_cl_sync2 sw_cl_not_coherent(1) show ?thesis
    by simp
qed

section \<open>Import on all processes\<close>

lemma localCopyOn_Inr:
  assumes "localCopyOn natives cl r = Inr st1"
  shows "indicesSendBuff st1 = indicesSendBuff (vectorOf cl r)"
    and "indicesRecvBuff st1 = indicesRecvBuff (vectorOf cl r)"
    and "length (rows st1) = length (rows (vectorOf cl r))"
    and "0 \<le> d \<Longrightarrow> d < numDomestic (overlapOf cl r) \<Longrightarrow>
         d < int (length (rows (vectorOf cl r))) \<and>
         rows st1 ! nat d = localValue (overlapOf cl r) (natives r) d"
    and "assign (overlapOf cl r) inbox (natives r) (vectorOf cl r) =
         sync (overlapOf cl r) inbox st1"
proof -
  from assms obtain xs where
    l: "assignLocalRows (overlapOf cl r) (natives r)
          (indexRange (numDomestic (overlapOf cl r))) (rows (vectorOf cl r)) = Inr xs"
    and st1: "st1 = (vectorOf cl r)\<lparr>rows := xs\<rparr>"
    by (auto simp: localCopyOn_def bindE_eq_Inr)
  show "indicesSendBuff st1 = indicesSendBuff (vectorOf cl r)"
    and "indicesRecvBuff st1 = indicesRecvBuff (vectorOf cl r)" using st1 by simp_all
  from assignLocalRows_result[OF l] st1
  show "length (rows st1) = length (rows (vectorOf cl r))" by simp
  show "d < int (length (rows (vectorOf cl r))) \<and>
         rows st1 ! nat d = localValue (overlapOf cl r) (natives r) d"
    if "0 \<le> d" "d < numDomestic (overlapOf cl r)"
  proof -
    from that have m: "d \<in> set (indexRange (numDomestic (overlapOf cl r)))"
      by (simp add: in_indexRange)
    from assignLocalRows_in_range[OF l m] assignLocalRows_result[OF l] m st1 that(1)
    show ?thesis by simp
  qed
  show "assign (overlapOf cl r) inbox (natives r) (vectorOf cl r) =
         sync (overlapOf cl r) inbox st1"
    using l st1 by (simp add: assign_def)
qed

lemma coherent_same_plans:
  assumes "ranks cl' = ranks cl" and "overlapOf cl' = overlapOf cl"
    and "\<And>r. indicesSendBuff (vectorOf cl' r) = indicesSendBuff (vectorOf cl r)"
    and "\<And>r. indicesRecvBuff (vectorOf cl' r) = indicesRecvBuff (vectorOf cl r)"
  shows "coherent cl' = coherent cl"
proof -
  have "plansAgree cl' r q = plansAgree cl r q" for r q
    using assms by (simp add: plansAgree_def split: option.splits)
  with assms(1,2) show ?thesis by (simp add: coherent_def)
qed

lemma localCopies_Inr:
  assumes "everyRank (localCopyOn natives cl) cl = Inr clL"
  shows "ranks clL = ranks cl" and "overlapOf clL = overlapOf cl"
    and "indicesSendBuff (vectorOf clL r) = indicesSendBuff (vectorOf cl r)"
    and "indicesRecvBuff (vectorOf clL r) = indicesRecvBuff (vectorOf cl r)"
    and "length (rows (vectorOf clL r)) = length (rows (vectorOf cl r))"
proof -
  note e = everyRank_Inr[OF assms]
  show "ranks clL = ranks cl" and "overlapOf clL = overlapOf cl" using e(1,2) by simp_all
  show "indicesSendBuff (vectorOf clL r) = indicesSendBuff (vectorOf cl r)"
    using e(3)[of r, THEN localCopyOn_Inr(1)] e(4)[of r] by (cases "r \<in> set (ranks cl)") simp_all
  show "indicesRecvBuff (vectorOf clL r) = indicesRecvBuff (vectorOf cl r)"
    using e(3)[of r, THEN localCopyOn_Inr(2)] e(4)[of r] by (cases "r \<in> set (ranks cl)") simp_all
  show "length (rows (vectorOf clL r)) = length (rows (vectorOf cl r))"
    using e(3)[of r, THEN localCopyOn_Inr(3)] e(4)[of r] by (cases "r \<in> set (ranks cl)") simp_all
qed

lemma assignEverywhere_master_values:
  assumes run: "assignEverywhere natives cl = Inr cl'"
    and co: "coherent cl" and cv: "covered cl"
    and r: "r \<in> set (ranks cl)" and d: "0 \<le> d" "d < numDomestic (overlapOf cl r)"
  shows "\<exists>inbox. assign (overlapOf cl r) inbox (natives r) (vectorOf cl r) = Inr (vectorOf cl' r)"
    and "\<exists>q s. masterCopy cl r d = Some (q, s) \<and> q = masterRank (overlapOf cl r) d \<and>
           rows (vectorOf cl' r) ! nat d = rows (vectorOf cl' q) ! nat s \<and>
           rows (vectorOf cl' q) ! nat s = localValue (overlapOf cl q) (natives q) s"
proof -
  from run obtain clL where
    lc: "everyRank (localCopyOn natives cl) cl = Inr clL" and sy: "syncEverywhere clL = Inr cl'"
    by (auto simp: assignEverywhere_def bindE_eq_Inr)
  note L = localCopies_Inr[OF lc]
  note E = everyRank_Inr[OF lc]
  have coL: "coherent clL"
    using coherent_same_plans[OF L(1,2,3,4)] co by simp
  have rL: "r \<in> set (ranks clL)" using r L(1) by simp
  from syncEverywhere_Inr(3)[OF sy rL]
  have sr: "syncOn clL r = Inr (vectorOf cl' r)" .
  then have "sync (overlapOf cl r) (\<lambda>q. sentTo clL q r) (vectorOf clL r) = Inr (vectorOf cl' r)"
    by (simp add: syncOn_def L(2))
  with localCopyOn_Inr(5)[OF E(3)[OF r], of "\<lambda>q. sentTo clL q r"]
  show "\<exists>inbox. assign (overlapOf cl r) inbox (natives r) (vectorOf cl r) = Inr (vectorOf cl' r)"
    by auto
  from cv r have lenr: "int (length (rows (vectorOf cl r))) = numDomestic (overlapOf cl r)"
    by (simp add: covered_def)
  have dL: "0 \<le> d" "d < int (length (rows (vectorOf clL r)))"
    using d lenr L(5)[of r] by simp_all
  let ?q = "masterRank (overlapOf cl r) d"
  from cv r d have cases: "?q = r \<or>
      (?q \<in> set (peerSet (overlapOf cl r)) \<and>
       (case indicesRecvBuff (vectorOf cl r) ?q of None \<Rightarrow> False | Some recv \<Rightarrow> d \<in> set recv))"
    by (simp add: covered_def in_indexRange)
  have local: "rows (vectorOf cl' q) ! nat s = rows (vectorOf clL q) ! nat s \<and>
        rows (vectorOf clL q) ! nat s = localValue (overlapOf cl q) (natives q) s"
    if q: "q \<in> set (ranks cl)" and s: "0 \<le> s" "s < int (length (rows (vectorOf clL q)))"
      and own: "masterRank (overlapOf cl q) s = q" for q s
  proof -
    have qL: "q \<in> set (ranks clL)" using q L(1) by simp
    from cv q have "int (length (rows (vectorOf cl q))) = numDomestic (overlapOf cl q)"
      by (simp add: covered_def)
    with s L(5)[of q] have sn: "s < numDomestic (overlapOf cl q)" by simp
    from syncOn_own_row[OF syncEverywhere_Inr(3)[OF sy qL] coL qL s] own L(2)
    have "rows (vectorOf cl' q) ! nat s = rows (vectorOf clL q) ! nat s" by simp
    with localCopyOn_Inr(4)[OF E(3)[OF q] s(1) sn] show ?thesis by simp
  qed
  show "\<exists>q s. masterCopy cl r d = Some (q, s) \<and> q = masterRank (overlapOf cl r) d \<and>
           rows (vectorOf cl' r) ! nat d = rows (vectorOf cl' q) ! nat s \<and>
           rows (vectorOf cl' q) ! nat s = localValue (overlapOf cl q) (natives q) s"
  proof (cases "?q = r")
    case True
    then have "masterCopy cl r d = Some (r, d)" by (simp add: masterCopy_def)
    with local[OF r dL True] True show ?thesis by simp
  next
    case False
    with cases obtain recv where
      q: "?q \<in> set (peerSet (overlapOf cl r))"
      and recv: "indicesRecvBuff (vectorOf cl r) ?q = Some recv" and m: "d \<in> set recv"
      by (auto split: option.splits)
    from m obtain k where k: "lastPos d recv = Some k"
      using lastPos_None[of d recv] by (cases "lastPos d recv") auto
    have qL: "masterRank (overlapOf clL r) d = ?q" "?q \<in> set (peerSet (overlapOf clL r))"
      using q L(2) by simp_all
    have recvL: "indicesRecvBuff (vectorOf clL r) ?q = Some recv" using recv L(4) by simp
    from syncOn_row_from_master[OF sr coL rL dL qL recvL k] obtain send where
      send: "indicesSendBuff (vectorOf clL ?q) r = Some send"
      and qr: "?q \<in> set (ranks clL)"
      and s: "0 \<le> send ! k" "send ! k < int (length (rows (vectorOf clL ?q)))"
      and own: "masterRank (overlapOf clL ?q) (send ! k) = ?q"
      and v: "rows (vectorOf cl' r) ! nat d = rows (vectorOf clL ?q) ! nat (send ! k)"
      by blast
    from send L(3) have send0: "indicesSendBuff (vectorOf cl ?q) r = Some send" by simp
    from False recv send0 k have "masterCopy cl r d = Some (?q, send ! k)"
      by (simp add: masterCopy_def)
    moreover from qr L(1) have "?q \<in> set (ranks cl)" by simp
    from local[OF this s] own L(2)
    have "rows (vectorOf cl' ?q) ! nat (send ! k) = rows (vectorOf clL ?q) ! nat (send ! k)"
      "rows (vectorOf clL ?q) ! nat (send ! k) =
        localValue (overlapOf cl ?q) (natives ?q) (send ! k)" by simp_all
    ultimately show ?thesis using v by simp
  qed
qed

text \<open>
  C5 (as the code has it). When \<open>assign(V)\<close> returns, it has first set every domestic
  row \<open>d\<close> below \<open>numDomestic()\<close> to \<open>V[domesticToNative(d)]\<close> when that index is not
  negative and to zero when it is, and then called \<open>sync()\<close>. When all processes call it,
  each with its own native vector, when the call returns on all of them, and when the
  plans of the processes are \<open>coherent\<close> and \<open>covered\<close>, then what each process holds is
  the result of its own \<open>assign(V)\<close>, and every domestic row of every process equals the
  row its master rank holds for it, which is the value the master assigned from its own
  native vector. The row the master holds for a row is the row itself when the process is
  the master; otherwise it is the row named by the master's send plan at the last position
  at which the plan by which the process receives from the master lists the row.

  Coherent plans: no rank is in its own peer set; for every peer \<open>q\<close> of a rank \<open>r\<close> the
  plan by which \<open>r\<close> receives from \<open>q\<close> is as long as the plan by which \<open>q\<close> sends to
  \<open>r\<close>; and where the descriptor of \<open>r\<close> names \<open>q\<close> as the master of the row at a
  position of that receive plan, the descriptor of \<open>q\<close> names \<open>q\<close> as the master of the
  row at the same position of that send plan. Covered plans: every process holds
  \<open>numDomestic()\<close> rows, and every domestic row whose master is another rank has that
  rank in the peer set and is listed in the plan by which the process receives from it.
\<close>

theorem assign_copies_locally_then_takes_master_values:
  "(assign ov inbox V st = Inr st' \<longrightarrow>
      (\<exists>xs. assignLocalRows ov V (indexRange (numDomestic ov)) (rows st) = Inr xs \<and>
            (\<forall>d. 0 \<le> d \<and> d < numDomestic ov \<longrightarrow>
               xs ! nat d =
                 (if domesticToNative ov d < 0 then 0 else V ! nat (domesticToNative ov d))) \<and>
            sync ov inbox (st\<lparr>rows := xs\<rparr>) = Inr st')) \<and>
   (assignEverywhere natives cl = Inr cl' \<and> coherent cl \<and> covered cl \<and>
    r \<in> set (ranks cl) \<and> 0 \<le> d \<and> d < numDomestic (overlapOf cl r) \<longrightarrow>
      (\<exists>inbox. assign (overlapOf cl r) inbox (natives r) (vectorOf cl r) = Inr (vectorOf cl' r)) \<and>
      (\<exists>q s. masterCopy cl r d = Some (q, s) \<and> q = masterRank (overlapOf cl r) d \<and>
             rows (vectorOf cl' r) ! nat d = rows (vectorOf cl' q) ! nat s \<and>
             rows (vectorOf cl' q) ! nat s = localValue (overlapOf cl q) (natives q) s))"
proof (intro conjI impI)
  assume a: "assign ov inbox V st = Inr st'"
  then obtain xs where
    l: "assignLocalRows ov V (indexRange (numDomestic ov)) (rows st) = Inr xs"
    and s: "sync ov inbox (st\<lparr>rows := xs\<rparr>) = Inr st'"
    by (rule assign_phases)
  have "xs ! nat d =
      (if domesticToNative ov d < 0 then 0 else V ! nat (domesticToNative ov d))"
    if "0 \<le> d \<and> d < numDomestic ov" for d
  proof -
    from that have m: "d \<in> set (indexRange (numDomestic ov))" by (simp add: in_indexRange)
    from assignLocalRows_in_range[OF l m] assignLocalRows_result[OF l] m that
    show ?thesis by (simp add: localValue_def)
  qed
  with l s show "\<exists>xs. assignLocalRows ov V (indexRange (numDomestic ov)) (rows st) = Inr xs \<and>
            (\<forall>d. 0 \<le> d \<and> d < numDomestic ov \<longrightarrow>
               xs ! nat d =
                 (if domesticToNative ov d < 0 then 0 else V ! nat (domesticToNative ov d))) \<and>
            sync ov inbox (st\<lparr>rows := xs\<rparr>) = Inr st'"
    by blast
next
  assume h: "assignEverywhere natives cl = Inr cl' \<and> coherent cl \<and> covered cl \<and>
    r \<in> set (ranks cl) \<and> 0 \<le> d \<and> d < numDomestic (overlapOf cl r)"
  then show "\<exists>inbox. assign (overlapOf cl r) inbox (natives r) (vectorOf cl r) = Inr (vectorOf cl' r)"
    using assignEverywhere_master_values(1)[of natives cl cl' r d] by blast
  from h show "\<exists>q s. masterCopy cl r d = Some (q, s) \<and> q = masterRank (overlapOf cl r) d \<and>
             rows (vectorOf cl' r) ! nat d = rows (vectorOf cl' q) ! nat s \<and>
             rows (vectorOf cl' q) ! nat s = localValue (overlapOf cl q) (natives q) s"
    using assignEverywhere_master_values(2)[of natives cl cl' r d] by blast
qed

text \<open>
  Rank 0 of the two processes assigns \<open>[5, 6]\<close>, rank 1 assigns \<open>[9]\<close>. Row 1 of rank 0
  has the native value 6 and belongs to rank 1: it ends with the 9 that rank 1 holds in
  its row 0. On the process with two peers the local copy gives \<open>[7, 8, 0]\<close>.
\<close>

theorem assign_copies_locally_then_takes_master_values_witness:
  "\<not> isl (assign ex_ov ex_inbox ex_V ex_st) \<and>
   assignLocalRows ex_ov ex_V (indexRange (numDomestic ex_ov)) (rows ex_st) = Inr [7, 8, 0] \<and>
   sync ex_ov ex_inbox (ex_st\<lparr>rows := [7, 8, 0]\<rparr>) = assign ex_ov ex_inbox ex_V ex_st \<and>
   \<not> isl (assignEverywhere ex_natives ex_cl) \<and> coherent ex_cl \<and> covered ex_cl \<and>
   rows (vectorOf (projr (assignEverywhere ex_natives ex_cl)) 0) = [5, 9] \<and>
   rows (vectorOf (projr (assignEverywhere ex_natives ex_cl)) 1) = [9, 5] \<and>
   masterCopy ex_cl 0 1 = Some (1, 0) \<and>
   rows (vectorOf (projr (assignEverywhere ex_natives ex_cl)) 0) ! nat 1 =
     rows (vectorOf (projr (assignEverywhere ex_natives ex_cl)) 1) ! nat 0 \<and>
   rows (vectorOf (projr (assignEverywhere ex_natives ex_cl)) 1) ! nat 0 =
     localValue (overlapOf ex_cl 1) (ex_natives 1) 0"
proof -
  let ?cl' = "projr (assignEverywhere ex_natives ex_cl)"
  let ?st' = "projr (assign ex_ov ex_inbox ex_V ex_st)"
  have a: "assign ex_ov ex_inbox ex_V ex_st = Inr ?st'"
    by (simp add: assign_def sync_def receiveFromMaster_def ex_V_def ex_defs)
  have l: "assignLocalRows ex_ov ex_V (indexRange (numDomestic ex_ov)) (rows ex_st) = Inr [7, 8, 0]"
    by (simp add: ex_V_def ex_defs)
  have run: "assignEverywhere ex_natives ex_cl = Inr ?cl'"
    and res: "rows (vectorOf ?cl' 0) = [5, 9]" "rows (vectorOf ?cl' 1) = [9, 5]"
    by (simp_all add: assignEverywhere_def localCopyOn_def ex_cl_defs)
  have cv: "covered ex_cl"
    by (simp add: covered_def ex_cl_defs)
  have mc: "masterCopy ex_cl 0 1 = Some (1, 0)"
    by (simp add: masterCopy_def ex_cl_defs)
  have r: "0 \<in> set (ranks ex_cl)" "(0::int) \<le> 1" "1 < numDomestic (overlapOf ex_cl 0)"
    by (simp_all add: ex_cl_defs)
  note t = assign_copies_locally_then_takes_master_values[of ex_ov ex_inbox ex_V ex_st ?st'
      ex_natives ex_cl ?cl' 0 1]
  from t a l have s: "sync ex_ov ex_inbox (ex_st\<lparr>rows := [7, 8, 0]\<rparr>) = assign ex_ov ex_inbox ex_V ex_st"
    by auto
  from t run ex_cl_coherent cv r mc have
    "rows (vectorOf ?cl' 0) ! nat 1 = rows (vectorOf ?cl' 1) ! nat 0 \<and>
     rows (vectorOf ?cl' 1) ! nat 0 = localValue (overlapOf ex_cl 1) (ex_natives 1) 0"
    by auto
  with a l s run ex_cl_coherent cv res mc show ?thesis
    by (metis sum.disc(2))
qed

lemma un_cl_constructed:
  "\<not> isl (constructEverywhere (ranks un_cl) (overlapOf un_cl) (\<lambda>i. 0 :: int))"
  "indexPlans (vectorOf (projr (constructEverywhere (ranks un_cl) (overlapOf un_cl) (\<lambda>i. 0 :: int))) 0)
     = indexPlans (vectorOf un_cl 0)"
  "indexPlans (vectorOf (projr (constructEverywhere (ranks un_cl) (overlapOf un_cl) (\<lambda>i. 0 :: int))) 1)
     = indexPlans (vectorOf un_cl 1)"
  by (simp_all add: build_everywhere_defs sw_defs ex_cl_defs)

lemma un_cl_not_covered: "coherent un_cl" "\<not> covered un_cl"
  by (simp_all add: coherent_def plansAgree_def covered_def sw_defs ex_cl_defs)

lemma un_cl_descriptors:
  "descriptorsAgree (ranks un_cl) (overlapOf un_cl)"
  "\<not> descriptorsCover (ranks un_cl) (overlapOf un_cl)"
  by (simp_all add: descriptorsAgree_def descriptorsCover_def sentGlobals_def sw_defs ex_cl_defs)

lemma un_cl_assign:
  "\<not> isl (assignEverywhere ex_natives un_cl)"
  "rows (vectorOf (projr (assignEverywhere ex_natives un_cl)) 0) = [5, 6]"
  "rows (vectorOf (projr (assignEverywhere ex_natives un_cl)) 1) = [9, 5]"
  by (simp_all add: assignEverywhere_def localCopyOn_def sw_defs ex_cl_defs)

lemma sw_cl_assign:
  "\<not> isl (assignEverywhere sw_natives sw_cl)"
  "rows (vectorOf (projr (assignEverywhere sw_natives sw_cl)) 0) = [9]"
  "rows (vectorOf (projr (assignEverywhere sw_natives sw_cl)) 1) = [5]"
  by (simp_all add: assignEverywhere_def localCopyOn_def sw_defs ex_cl_defs)

text \<open>
  The last part of the claim as it was stated, without a condition on the plans, fails in
  two ways; in both the plans are those the constructors build and \<open>assign\<close> returns on
  both processes.

  Where rank 1 announces nothing to rank 0 the plans are coherent but not covered. Rank 0
  assigns \<open>[5, 6]\<close> and rank 1 assigns \<open>[9]\<close>. Row 1 of rank 0 has the global index 101
  and the master rank 1, which holds that index in its row 0. After the call rank 0 holds
  \<open>[5, 6]\<close> and rank 1 holds \<open>[9, 5]\<close>: row 1 of rank 0 is 6, its master holds 9.

  Where the two processes name each other as master the plans are covered but not
  coherent. Rank 0 assigns \<open>[5]\<close> and rank 1 assigns \<open>[9]\<close>; after the call rank 0 holds
  \<open>[9]\<close> and its master, rank 1, holds \<open>[5]\<close>.
\<close>

theorem assign_leaves_row_unlike_master:
  "\<not> isl (constructEverywhere (ranks un_cl) (overlapOf un_cl) (\<lambda>i. 0 :: int)) \<and>
   indexPlans (vectorOf (projr (constructEverywhere (ranks un_cl) (overlapOf un_cl)
                                  (\<lambda>i. 0 :: int))) 0) = indexPlans (vectorOf un_cl 0) \<and>
   indexPlans (vectorOf (projr (constructEverywhere (ranks un_cl) (overlapOf un_cl)
                                  (\<lambda>i. 0 :: int))) 1) = indexPlans (vectorOf un_cl 1) \<and>
   descriptorsAgree (ranks un_cl) (overlapOf un_cl) \<and> coherent un_cl \<and> \<not> covered un_cl \<and>
   \<not> isl (assignEverywhere ex_natives un_cl) \<and>
   rows (vectorOf (projr (assignEverywhere ex_natives un_cl)) 0) = [5, 6] \<and>
   rows (vectorOf (projr (assignEverywhere ex_natives un_cl)) 1) = [9, 5] \<and>
   masterRank (overlapOf un_cl 0) 1 = 1 \<and>
   domesticToGlobal (overlapOf un_cl 0) 1 = domesticToGlobal (overlapOf un_cl 1) 0 \<and>
   rows (vectorOf (projr (assignEverywhere ex_natives un_cl)) 0) ! nat 1 \<noteq>
     rows (vectorOf (projr (assignEverywhere ex_natives un_cl)) 1) ! nat 0 \<and>
   covered sw_cl \<and> \<not> coherent sw_cl \<and>
   \<not> isl (assignEverywhere sw_natives sw_cl) \<and>
   rows (vectorOf (projr (assignEverywhere sw_natives sw_cl)) 0) = [9] \<and>
   rows (vectorOf (projr (assignEverywhere sw_natives sw_cl)) 1) = [5] \<and>
   masterRank (overlapOf sw_cl 0) 0 = 1 \<and>
   domesticToGlobal (overlapOf sw_cl 0) 0 = domesticToGlobal (overlapOf sw_cl 1) 0 \<and>
   rows (vectorOf (projr (assignEverywhere sw_natives sw_cl)) 0) ! nat 0 \<noteq>
     rows (vectorOf (projr (assignEverywhere sw_natives sw_cl)) 1) ! nat 0"
proof -
  have "masterRank (overlapOf un_cl 0) 1 = 1"
    "domesticToGlobal (overlapOf un_cl 0) 1 = domesticToGlobal (overlapOf un_cl 1) 0"
    "masterRank (overlapOf sw_cl 0) 0 = 1"
    "domesticToGlobal (overlapOf sw_cl 0) 0 = domesticToGlobal (overlapOf sw_cl 1) 0"
    by (simp_all add: sw_defs ex_ov0_def)
  with un_cl_constructed un_cl_descriptors(1) un_cl_not_covered un_cl_assign
    sw_cl_not_coherent sw_cl_assign
  show ?thesis by simp
qed

section \<open>Plans built from agreeing descriptors\<close>

lemma receiveIndices_rows:
  "forEachPeer (receiveIndices ov countInbox indexInbox uninit) ps st = Inr st' \<Longrightarrow>
   rows st' = rows st"
  by (rule forEachPeer_preserves[where g = rows])
    (auto simp: receiveIndices_def bindE_eq_Inr split: if_splits)

lemma convertSendIndices_rows:
  "forEachPeer (convertSendIndices ov) ps st = Inr st' \<Longrightarrow> rows st' = rows st"
  by (rule forEachPeer_preserves[where g = rows])
    (auto simp: convertSendIndices_def split: option.splits)

lemma convertSendIndices_plans:
  "distinct ps \<Longrightarrow>
   \<forall>p \<in> set ps. p \<in> dom (numIndicesSendBuff st) \<and> p \<in> dom (indicesSendBuff st) \<Longrightarrow>
   \<exists>st'. forEachPeer (convertSendIndices ov) ps st = Inr st' \<and>
     indicesRecvBuff st' = indicesRecvBuff st \<and>
     (\<forall>p. indicesSendBuff st' p =
        (if p \<in> set ps then map_option (map (globalToDomestic ov)) (indicesSendBuff st p)
         else indicesSendBuff st p))"
proof (induction ps arbitrary: st)
  case Nil
  then show ?case by simp
next
  case (Cons p ps)
  from Cons.prems(2) obtain n ds where
    b: "numIndicesSendBuff st p = Some n" "indicesSendBuff st p = Some ds" by auto
  let ?s1 = "st\<lparr>indicesSendBuff := (indicesSendBuff st)(p \<mapsto> map (globalToDomestic ov) ds)\<rparr>"
  have s1: "convertSendIndices ov st p = Inr ?s1"
    using b by (simp add: convertSendIndices_def)
  from Cons.prems have d: "distinct ps" and np: "p \<notin> set ps"
    and "\<forall>q \<in> set ps. q \<in> dom (numIndicesSendBuff ?s1) \<and> q \<in> dom (indicesSendBuff ?s1)"
    by auto
  from Cons.IH[OF d this(3)] obtain st' where
    r: "forEachPeer (convertSendIndices ov) ps ?s1 = Inr st'"
    and f: "indicesRecvBuff st' = indicesRecvBuff ?s1"
    and i: "\<forall>q. indicesSendBuff st' q =
        (if q \<in> set ps then map_option (map (globalToDomestic ov)) (indicesSendBuff ?s1 q)
         else indicesSendBuff ?s1 q)"
    by blast
  have "forEachPeer (convertSendIndices ov) (p # ps) st = Inr st'" using s1 r by simp
  moreover have "indicesRecvBuff st' = indicesRecvBuff st" using f by simp
  moreover have "\<forall>q. indicesSendBuff st' q =
        (if q \<in> set (p # ps) then map_option (map (globalToDomestic ov)) (indicesSendBuff st q)
         else indicesSendBuff st q)"
    using i np b by auto
  ultimately show ?case by blast
qed

lemma createBuffers_plans:
  assumes sz: "\<forall>p \<in> set (peerSet ov). 0 \<le> foreignOverlapSize ov p"
    and di: "distinct (peerSet ov)"
    and msg: "\<forall>p \<in> set (peerSet ov).
           \<exists>gs. indexInbox p = Some gs \<and> countInbox p = Some [int (length gs)]"
  shows "\<exists>st'. createBuffers True ov countInbox indexInbox uninit st = Inr st' \<and>
           rows st' = rows st \<and>
           (\<forall>p \<in> set (peerSet ov).
              indicesRecvBuff st' p = map_option (map (globalToDomestic ov)) (indexInbox p) \<and>
              indicesSendBuff st' p = Some (map (globalToDomestic ov) (sentGlobals ov p)))"
proof -
  from sendIndices_plans[OF sz, of uninit st] obtain st1 where
    s1: "forEachPeer (sendIndices ov uninit) (peerSet ov) st = Inr st1"
    and r1: "rows st1 = rows st"
    and n1: "\<forall>p \<in> set (peerSet ov). numIndicesSendBuff st1 p = Some [foreignOverlapSize ov p]"
    and i1: "\<forall>p \<in> set (peerSet ov). indicesSendBuff st1 p = Some (sentGlobals ov p)"
    by (metis (no_types, lifting))
  from receiveIndices_all[OF msg, of ov uninit st1] obtain st2 where
    s2: "forEachPeer (receiveIndices ov countInbox indexInbox uninit) (peerSet ov) st1 = Inr st2"
    and f2: "numIndicesSendBuff st2 = numIndicesSendBuff st1" "indicesSendBuff st2 = indicesSendBuff st1"
    and r2: "\<forall>p \<in> set (peerSet ov).
        indicesRecvBuff st2 p = map_option (map (globalToDomestic ov)) (indexInbox p)"
    by (metis (no_types, lifting))
  from n1 i1 f2 have "\<forall>p \<in> set (peerSet ov).
      p \<in> dom (numIndicesSendBuff st2) \<and> p \<in> dom (indicesSendBuff st2)"
    by auto
  from convertSendIndices_plans[OF di this, of ov] obtain st3 where
    s3: "forEachPeer (convertSendIndices ov) (peerSet ov) st2 = Inr st3"
    and r3: "indicesRecvBuff st3 = indicesRecvBuff st2"
    and i3: "\<forall>p \<in> set (peerSet ov).
        indicesSendBuff st3 p = map_option (map (globalToDomestic ov)) (indicesSendBuff st2 p)"
    by (metis (no_types, lifting))
  from s1 s2 s3 have "createBuffers True ov countInbox indexInbox uninit st = Inr st3"
    by (simp add: createBuffers_def)
  moreover have "rows st3 = rows st"
    using convertSendIndices_rows[OF s3] receiveIndices_rows[OF s2] r1 by simp
  ultimately show ?thesis using r2 r3 i3 i1 f2 by auto
qed



lemma length_sentGlobals:
  "0 \<le> foreignOverlapSize ov p \<Longrightarrow> int (length (sentGlobals ov p)) = foreignOverlapSize ov p"
  by (simp add: sentGlobals_def indexRange_def)

lemma descriptorsAgreeD:
  assumes "descriptorsAgree rs ovs" and "r \<in> set rs"
  shows "0 \<le> numDomestic (ovs r)" and "distinct (peerSet (ovs r))"
    and "r \<notin> set (peerSet (ovs r))"
    and "q \<in> set (peerSet (ovs r)) \<Longrightarrow> q \<in> set rs"
    and "q \<in> set (peerSet (ovs r)) \<Longrightarrow> r \<in> set (peerSet (ovs q))"
    and "q \<in> set (peerSet (ovs r)) \<Longrightarrow> 0 \<le> foreignOverlapSize (ovs r) q"
    and "q \<in> set (peerSet (ovs r)) \<Longrightarrow> g \<in> set (sentGlobals (ovs q) r) \<Longrightarrow>
         masterRank (ovs r) (globalToDomestic (ovs r) g) = q \<Longrightarrow>
         masterRank (ovs q) (globalToDomestic (ovs q) g) = q"
proof -
  from assms have a: "0 \<le> numDomestic (ovs r) \<and> distinct (peerSet (ovs r)) \<and> r \<notin> set (peerSet (ovs r)) \<and>
        (\<forall>q \<in> set (peerSet (ovs r)).
           q \<in> set rs \<and> r \<in> set (peerSet (ovs q)) \<and> 0 \<le> foreignOverlapSize (ovs r) q \<and>
           (\<forall>g \<in> set (sentGlobals (ovs q) r).
              masterRank (ovs r) (globalToDomestic (ovs r) g) = q \<longrightarrow>
              masterRank (ovs q) (globalToDomestic (ovs q) g) = q))"
    unfolding descriptorsAgree_def by (rule bspec)
  then show "0 \<le> numDomestic (ovs r)" and "distinct (peerSet (ovs r))"
    and "r \<notin> set (peerSet (ovs r))" by blast+
  from a show "q \<in> set rs" if "q \<in> set (peerSet (ovs r))" using that by blast
  from a show "r \<in> set (peerSet (ovs q))" if "q \<in> set (peerSet (ovs r))" using that by blast
  from a show "0 \<le> foreignOverlapSize (ovs r) q" if "q \<in> set (peerSet (ovs r))"
    using that by blast
  from a show "masterRank (ovs q) (globalToDomestic (ovs q) g) = q"
    if "q \<in> set (peerSet (ovs r))" "g \<in> set (sentGlobals (ovs q) r)"
      "masterRank (ovs r) (globalToDomestic (ovs r) g) = q"
    using that by blast
qed


lemma announced:
  assumes ag: "descriptorsAgree rs ovs" and r: "r \<in> set rs" and q: "q \<in> set (peerSet (ovs r))"
  shows "indicesSentTo rs ovs uninit q r = Some (sentGlobals (ovs q) r)"
    and "countSentTo rs ovs uninit q r = Some [int (length (sentGlobals (ovs q) r))]"
proof -
  note qs = descriptorsAgreeD(4)[OF ag r q] and rq = descriptorsAgreeD(5)[OF ag r q]
  note nd = descriptorsAgreeD(1)[OF ag qs]
  have sz: "\<forall>p \<in> set (peerSet (ovs q)). 0 \<le> foreignOverlapSize (ovs q) p"
    using descriptorsAgreeD(6)[OF ag qs] by blast
  from sendIndices_plans[OF sz, of uninit "blankVector (ovs q) uninit"] obtain st1 where
    s1: "forEachPeer (sendIndices (ovs q) uninit) (peerSet (ovs q)) (blankVector (ovs q) uninit) = Inr st1"
    and n: "\<forall>p. numIndicesSendBuff st1 p =
        (if p \<in> set (peerSet (ovs q)) then Some [foreignOverlapSize (ovs q) p]
         else numIndicesSendBuff (blankVector (ovs q) uninit) p)"
    and i: "\<forall>p. indicesSendBuff st1 p =
        (if p \<in> set (peerSet (ovs q)) then Some (sentGlobals (ovs q) p)
         else indicesSendBuff (blankVector (ovs q) uninit) p)"
    by blast
  from n rq have n1: "numIndicesSendBuff st1 r = Some [foreignOverlapSize (ovs q) r]" by simp
  from i rq have i1: "indicesSendBuff st1 r = Some (sentGlobals (ovs q) r)" by simp
  from sz rq have szr: "0 \<le> foreignOverlapSize (ovs q) r" by simp
  show "indicesSentTo rs ovs uninit q r = Some (sentGlobals (ovs q) r)"
    using qs rq nd s1 i1 by (simp add: indicesSentTo_def)
  show "countSentTo rs ovs uninit q r = Some [int (length (sentGlobals (ovs q) r))]"
    using qs rq nd s1 n1 length_sentGlobals[OF szr] by (simp add: countSentTo_def)
qed

lemma constructOn_plans:
  assumes ag: "descriptorsAgree rs ovs" and r: "r \<in> set rs"
  shows "\<exists>st. constructOn rs ovs uninit r = Inr st \<and>
           int (length (rows st)) = numDomestic (ovs r) \<and>
           (\<forall>q \<in> set (peerSet (ovs r)).
              indicesRecvBuff st q = Some (map (globalToDomestic (ovs r)) (sentGlobals (ovs q) r)) \<and>
              indicesSendBuff st q = Some (map (globalToDomestic (ovs r)) (sentGlobals (ovs r) q)))"
proof -
  note nd = descriptorsAgreeD(1)[OF ag r] and di = descriptorsAgreeD(2)[OF ag r]
  have sz: "\<forall>p \<in> set (peerSet (ovs r)). 0 \<le> foreignOverlapSize (ovs r) p"
    using descriptorsAgreeD(6)[OF ag r] by blast
  have msg: "\<forall>p \<in> set (peerSet (ovs r)).
      \<exists>gs. indicesSentTo rs ovs uninit p r = Some gs \<and>
           countSentTo rs ovs uninit p r = Some [int (length gs)]"
  proof
    fix p assume "p \<in> set (peerSet (ovs r))"
    from announced[OF ag r this, of uninit]
    show "\<exists>gs. indicesSentTo rs ovs uninit p r = Some gs \<and>
           countSentTo rs ovs uninit p r = Some [int (length gs)]" by simp
  qed
  from createBuffers_plans[OF sz di msg, of uninit "blankVector (ovs r) uninit"]
  obtain st where
    c: "createBuffers True (ovs r) (\<lambda>q. countSentTo rs ovs uninit q r)
          (\<lambda>q. indicesSentTo rs ovs uninit q r) uninit (blankVector (ovs r) uninit) = Inr st"
    and rw: "rows st = rows (blankVector (ovs r) uninit)"
    and pl: "\<forall>p \<in> set (peerSet (ovs r)).
        indicesRecvBuff st p =
          map_option (map (globalToDomestic (ovs r))) (indicesSentTo rs ovs uninit p r) \<and>
        indicesSendBuff st p = Some (map (globalToDomestic (ovs r)) (sentGlobals (ovs r) p))"
    by blast
  have "constructOn rs ovs uninit r = Inr st"
    using c nd by (simp add: constructOn_def construct_def blankVector_def)
  moreover have "int (length (rows st)) = numDomestic (ovs r)"
    using rw nd by (simp add: blankVector_def)
  moreover have "\<forall>q \<in> set (peerSet (ovs r)).
      indicesRecvBuff st q = Some (map (globalToDomestic (ovs r)) (sentGlobals (ovs q) r)) \<and>
      indicesSendBuff st q = Some (map (globalToDomestic (ovs r)) (sentGlobals (ovs r) q))"
  proof
    fix q assume q: "q \<in> set (peerSet (ovs r))"
    from pl q announced(1)[OF ag r q, of uninit]
    show "indicesRecvBuff st q = Some (map (globalToDomestic (ovs r)) (sentGlobals (ovs q) r)) \<and>
      indicesSendBuff st q = Some (map (globalToDomestic (ovs r)) (sentGlobals (ovs r) q))"
      by simp
  qed
  ultimately show ?thesis by blast
qed

lemma everyRank_total:
  assumes "\<forall>r \<in> set (ranks cl). \<exists>st. f r = Inr st"
  shows "\<exists>cl'. everyRank f cl = Inr cl'"
proof -
  from assms have "find (\<lambda>r. isl (f r)) (ranks cl) = None"
    by (auto simp: find_None_iff)
  then show ?thesis by (simp add: everyRank_def)
qed

text \<open>
  When the descriptors agree, every constructor returns, and the plans they have built are
  \<open>coherent\<close>; they are \<open>covered\<close> as well when the descriptors cover. The
  synchronisation methods leave the plans as they are, so both hold of every later state
  of the vectors.
\<close>

lemma constructed_plans_are_coherent:
  assumes ag: "descriptorsAgree rs ovs"
  shows "\<exists>cl. constructEverywhere rs ovs uninit = Inr cl \<and> ranks cl = rs \<and> overlapOf cl = ovs \<and>
           coherent cl \<and> (descriptorsCover rs ovs \<longrightarrow> covered cl)"
proof -
  let ?cl0 = "\<lparr>ranks = rs, overlapOf = ovs, vectorOf = (\<lambda>r. blankVector (ovs r) uninit)\<rparr>"
  have "\<exists>st. constructOn rs ovs uninit r = Inr st" if "r \<in> set rs" for r
    using constructOn_plans[OF ag that, of uninit] by blast
  then have "\<forall>r \<in> set (ranks ?cl0). \<exists>st. constructOn rs ovs uninit r = Inr st"
    by simp
  from everyRank_total[OF this] obtain cl where
    cl: "constructEverywhere rs ovs uninit = Inr cl"
    by (auto simp: constructEverywhere_def)
  note E = everyRank_Inr[OF cl[unfolded constructEverywhere_def]]
  have rk: "ranks cl = rs" and ov: "overlapOf cl = ovs" using E(1,2) by simp_all
  have st: "int (length (rows (vectorOf cl r))) = numDomestic (ovs r) \<and>
      (\<forall>q \<in> set (peerSet (ovs r)).
         indicesRecvBuff (vectorOf cl r) q =
           Some (map (globalToDomestic (ovs r)) (sentGlobals (ovs q) r)) \<and>
         indicesSendBuff (vectorOf cl r) q =
           Some (map (globalToDomestic (ovs r)) (sentGlobals (ovs r) q)))"
    if r: "r \<in> set rs" for r
  proof -
    from constructOn_plans[OF ag r, of uninit] obtain s where
      s: "constructOn rs ovs uninit r = Inr s"
      and p: "int (length (rows s)) = numDomestic (ovs r) \<and>
           (\<forall>q \<in> set (peerSet (ovs r)).
              indicesRecvBuff s q = Some (map (globalToDomestic (ovs r)) (sentGlobals (ovs q) r)) \<and>
              indicesSendBuff s q = Some (map (globalToDomestic (ovs r)) (sentGlobals (ovs r) q)))"
      by blast
    from E(3)[of r] r s have "vectorOf cl r = s" by simp
    with p show ?thesis by simp
  qed
  have co: "coherent cl"
    unfolding coherent_def
  proof (intro ballI conjI)
    fix r assume "r \<in> set (ranks cl)"
    then have r: "r \<in> set rs" using rk by simp
    from descriptorsAgreeD(3)[OF ag r] show "r \<notin> set (peerSet (overlapOf cl r))"
      by (simp add: ov)
    fix q assume "q \<in> set (peerSet (overlapOf cl r))"
    then have q: "q \<in> set (peerSet (ovs r))" using ov by simp
    note qs = descriptorsAgreeD(4)[OF ag r q] and rq = descriptorsAgreeD(5)[OF ag r q]
    from st[OF r] q have
      rc: "indicesRecvBuff (vectorOf cl r) q =
             Some (map (globalToDomestic (ovs r)) (sentGlobals (ovs q) r))" by simp
    from st[OF qs] rq have
      sn: "indicesSendBuff (vectorOf cl q) r =
             Some (map (globalToDomestic (ovs q)) (sentGlobals (ovs q) r))" by simp
    have "masterRank (ovs q) (map (globalToDomestic (ovs q)) (sentGlobals (ovs q) r) ! k) = q"
      if "k < length (sentGlobals (ovs q) r)"
        "masterRank (ovs r) (map (globalToDomestic (ovs r)) (sentGlobals (ovs q) r) ! k) = q" for k
      using descriptorsAgreeD(7)[OF ag r q, of "sentGlobals (ovs q) r ! k"] that by simp
    then show "plansAgree cl r q"
      using rc sn by (simp add: plansAgree_def ov)
  qed
  have cv: "covered cl" if dc: "descriptorsCover rs ovs"
    unfolding covered_def
  proof (intro ballI conjI)
    fix r assume "r \<in> set (ranks cl)"
    then have r: "r \<in> set rs" using rk by simp
    from st[OF r] show "int (length (rows (vectorOf cl r))) = numDomestic (overlapOf cl r)"
      by (simp add: ov)
    fix d assume "d \<in> set (indexRange (numDomestic (overlapOf cl r)))"
    then have d: "d \<in> set (indexRange (numDomestic (ovs r)))" by (simp add: ov)
    from dc have "\<forall>r \<in> set rs. \<forall>d \<in> set (indexRange (numDomestic (ovs r))).
        masterRank (ovs r) d = r \<or>
        (masterRank (ovs r) d \<in> set (peerSet (ovs r)) \<and>
         d \<in> set (map (globalToDomestic (ovs r)) (sentGlobals (ovs (masterRank (ovs r) d)) r)))"
      by (simp only: descriptorsCover_def)
    with r d have c: "masterRank (ovs r) d = r \<or>
        (masterRank (ovs r) d \<in> set (peerSet (ovs r)) \<and>
         d \<in> set (map (globalToDomestic (ovs r)) (sentGlobals (ovs (masterRank (ovs r) d)) r)))"
      by blast
    show "masterRank (overlapOf cl r) d = r \<or>
           (masterRank (overlapOf cl r) d \<in> set (peerSet (overlapOf cl r)) \<and>
            (case indicesRecvBuff (vectorOf cl r) (masterRank (overlapOf cl r) d) of
               None \<Rightarrow> False | Some recv \<Rightarrow> d \<in> set recv))"
    proof (cases "masterRank (ovs r) d = r")
      case True
      then show ?thesis by (simp add: ov)
    next
      case False
      with c have m: "masterRank (ovs r) d \<in> set (peerSet (ovs r))"
        and l: "d \<in> set (map (globalToDomestic (ovs r)) (sentGlobals (ovs (masterRank (ovs r) d)) r))"
        by blast+
      from st[OF r] m have "indicesRecvBuff (vectorOf cl r) (masterRank (ovs r) d) =
          Some (map (globalToDomestic (ovs r)) (sentGlobals (ovs (masterRank (ovs r) d)) r))"
        by blast
      with m l show ?thesis by (simp add: ov)
    qed
  qed
  from cl rk ov co cv show ?thesis by blast
qed

text \<open>The two processes of the example: their descriptors agree and cover, and the plans of
  \<open>ex_cl\<close> are those the two constructors build.\<close>

lemma ex_cl_descriptors:
  "descriptorsAgree (ranks ex_cl) (overlapOf ex_cl)"
  "descriptorsCover (ranks ex_cl) (overlapOf ex_cl)"
  by (simp_all add: descriptorsAgree_def descriptorsCover_def sentGlobals_def ex_cl_defs)

lemma ex_cl_constructed:
  "\<not> isl (constructEverywhere (ranks ex_cl) (overlapOf ex_cl) (\<lambda>i. 0 :: int))"
  "indexPlans (vectorOf (projr (constructEverywhere (ranks ex_cl) (overlapOf ex_cl) (\<lambda>i. 0 :: int))) 0)
     = indexPlans (vectorOf ex_cl 0)"
  "indexPlans (vectorOf (projr (constructEverywhere (ranks ex_cl) (overlapOf ex_cl) (\<lambda>i. 0 :: int))) 1)
     = indexPlans (vectorOf ex_cl 1)"
  by (simp_all add: constructEverywhere_def constructOn_def construct_def blankVector_def
      createBuffers_def sendIndices_def receiveIndices_def convertSendIndices_def
      countSentTo_def indicesSentTo_def indexPlans_def ex_cl_defs)

section \<open>The index plans from construction on\<close>

lemma convertSendIndices_count:
  "forEachPeer (convertSendIndices ov) ps st = Inr st' \<Longrightarrow>
   numIndicesSendBuff st' = numIndicesSendBuff st"
  by (rule forEachPeer_preserves[where g = numIndicesSendBuff])
    (auto simp: convertSendIndices_def split: option.splits)

lemma createBuffers_index_plans:
  assumes sz: "\<forall>p \<in> set (peerSet ov). 0 \<le> foreignOverlapSize ov p"
    and di: "distinct (peerSet ov)"
    and msg: "\<forall>p \<in> set (peerSet ov).
           \<exists>gs. indexInbox p = Some gs \<and> countInbox p = Some [int (length gs)]"
  shows "\<exists>st'. createBuffers True ov countInbox indexInbox uninit st = Inr st' \<and>
           (\<forall>p. numIndicesSendBuff st' p =
              (if p \<in> set (peerSet ov) then Some [foreignOverlapSize ov p]
               else numIndicesSendBuff st p)) \<and>
           (\<forall>p. indicesSendBuff st' p =
              (if p \<in> set (peerSet ov) then Some (map (globalToDomestic ov) (sentGlobals ov p))
               else indicesSendBuff st p)) \<and>
           (\<forall>p. indicesRecvBuff st' p =
              (if p \<in> set (peerSet ov) then map_option (map (globalToDomestic ov)) (indexInbox p)
               else indicesRecvBuff st p))"
proof -
  from sendIndices_plans[OF sz, of uninit st] obtain st1 where
    s1: "forEachPeer (sendIndices ov uninit) (peerSet ov) st = Inr st1"
    and c1: "indicesRecvBuff st1 = indicesRecvBuff st"
    and n1: "\<forall>p. numIndicesSendBuff st1 p =
        (if p \<in> set (peerSet ov) then Some [foreignOverlapSize ov p] else numIndicesSendBuff st p)"
    and i1: "\<forall>p. indicesSendBuff st1 p =
        (if p \<in> set (peerSet ov) then Some (sentGlobals ov p) else indicesSendBuff st p)"
    by blast
  from receiveIndices_all[OF msg, of ov uninit st1] obtain st2 where
    s2: "forEachPeer (receiveIndices ov countInbox indexInbox uninit) (peerSet ov) st1 = Inr st2"
    and n2: "numIndicesSendBuff st2 = numIndicesSendBuff st1"
    and i2: "indicesSendBuff st2 = indicesSendBuff st1"
    and r2: "\<forall>p. indicesRecvBuff st2 p =
        (if p \<in> set (peerSet ov) then map_option (map (globalToDomestic ov)) (indexInbox p)
         else indicesRecvBuff st1 p)"
    by blast
  have "\<forall>p \<in> set (peerSet ov).
      p \<in> dom (numIndicesSendBuff st2) \<and> p \<in> dom (indicesSendBuff st2)"
    using n1 i1 n2 i2 by (auto simp: dom_def)
  from convertSendIndices_plans[OF di this, of ov] obtain st3 where
    s3: "forEachPeer (convertSendIndices ov) (peerSet ov) st2 = Inr st3"
    and r3: "indicesRecvBuff st3 = indicesRecvBuff st2"
    and i3: "\<forall>p. indicesSendBuff st3 p =
        (if p \<in> set (peerSet ov) then map_option (map (globalToDomestic ov)) (indicesSendBuff st2 p)
         else indicesSendBuff st2 p)"
    by blast
  note n3 = convertSendIndices_count[OF s3]
  from s1 s2 s3 have run: "createBuffers True ov countInbox indexInbox uninit st = Inr st3"
    by (simp add: createBuffers_def)
  have a: "\<forall>p. numIndicesSendBuff st3 p =
              (if p \<in> set (peerSet ov) then Some [foreignOverlapSize ov p]
               else numIndicesSendBuff st p)"
    using n1 n2 n3 by simp
  have b: "\<forall>p. indicesSendBuff st3 p =
              (if p \<in> set (peerSet ov) then Some (map (globalToDomestic ov) (sentGlobals ov p))
               else indicesSendBuff st p)"
    using i1 i2 i3 by simp
  have c: "\<forall>p. indicesRecvBuff st3 p =
              (if p \<in> set (peerSet ov) then map_option (map (globalToDomestic ov)) (indexInbox p)
               else indicesRecvBuff st p)"
    using r2 r3 c1 by simp
  from run a b c show ?thesis by blast
qed

lemma construct_index_plans:
  assumes nd: "0 \<le> numDomestic ov"
    and sz: "\<forall>p \<in> set (peerSet ov). 0 \<le> foreignOverlapSize ov p"
    and di: "distinct (peerSet ov)"
    and msg: "\<forall>p \<in> set (peerSet ov).
           \<exists>gs. indexInbox p = Some gs \<and> countInbox p = Some [int (length gs)]"
  shows "\<exists>st0. construct True ov countInbox indexInbox uninit = Inr st0 \<and>
           (\<forall>p. numIndicesSendBuff st0 p =
              (if p \<in> set (peerSet ov) then Some [foreignOverlapSize ov p] else None)) \<and>
           (\<forall>p. indicesSendBuff st0 p =
              (if p \<in> set (peerSet ov) then Some (map (globalToDomestic ov) (sentGlobals ov p))
               else None)) \<and>
           (\<forall>p. indicesRecvBuff st0 p =
              (if p \<in> set (peerSet ov) then map_option (map (globalToDomestic ov)) (indexInbox p)
               else None))"
proof -
  from createBuffers_index_plans[OF sz di msg, of uninit "blankVector ov uninit"]
  obtain st0 where
    run: "createBuffers True ov countInbox indexInbox uninit (blankVector ov uninit) = Inr st0"
    and n: "\<forall>p. numIndicesSendBuff st0 p =
              (if p \<in> set (peerSet ov) then Some [foreignOverlapSize ov p]
               else numIndicesSendBuff (blankVector ov uninit) p)"
    and i: "\<forall>p. indicesSendBuff st0 p =
              (if p \<in> set (peerSet ov) then Some (map (globalToDomestic ov) (sentGlobals ov p))
               else indicesSendBuff (blankVector ov uninit) p)"
    and r: "\<forall>p. indicesRecvBuff st0 p =
              (if p \<in> set (peerSet ov) then map_option (map (globalToDomestic ov)) (indexInbox p)
               else indicesRecvBuff (blankVector ov uninit) p)"
    by blast
  have "construct True ov countInbox indexInbox uninit = Inr st0"
    using run nd by (simp add: construct_def)
  moreover have "numIndicesSendBuff (blankVector ov uninit) p = None"
    "indicesSendBuff (blankVector ov uninit) p = None"
    "indicesRecvBuff (blankVector ov uninit) p = None" for p
    by (simp_all add: blankVector_def)
  ultimately show ?thesis using n i r by simp
qed

lemma construct_without_mpi:
  "0 \<le> numDomestic ov \<Longrightarrow>
   construct False ov countInbox indexInbox uninit = Inr (blankVector ov uninit) \<and>
   indexPlans (blankVector ov uninit) = noPlans"
  by (simp add: construct_def createBuffers_def blankVector_def indexPlans_def noPlans_def)

text \<open>
  C9 (as the code has it). The per-peer index plans are built by the constructor from a
  descriptor, in \<open>createBuffers_\<close>, when the class is compiled with \<open>HAVE_MPI\<close>. If
  \<open>numDomestic()\<close> and the foreign overlap sizes are not negative, the peer set names no
  rank twice, and from every peer the index message arrives and the count message carries
  its length, then the constructor returns an object that holds for every peer \<open>p\<close>
  \<open>numIndicesSendBuff_[p] = [foreignOverlapSize(p)]\<close>, as \<open>indicesSendBuff_[p]\<close> the
  domestic indices of the global indices it announces to \<open>p\<close>, and as
  \<open>indicesRecvBuff_[p]\<close> the domestic indices of the global indices received from \<open>p\<close>,
  and that holds no plan for any other rank. Every call of \<open>sync()\<close>, \<open>syncAdd()\<close>,
  \<open>syncAddBorder()\<close>, \<open>assign()\<close>, \<open>assignAddBorder()\<close> or \<open>assignTo()\<close> that returns
  leaves \<open>indicesSendBuff_\<close>, \<open>indicesRecvBuff_\<close> and \<open>numIndicesSendBuff_\<close> as they
  were. \<open>operator=\<close> gives the object the plans of its argument, as the copy constructor
  gives them to the new object. Without \<open>HAVE_MPI\<close> the constructor returns an object
  without plans when \<open>numDomestic()\<close> is not negative, and the default constructor gives
  an object without plans.
\<close>

theorem index_plans_built_by_constructor_and_kept:
  "(0 \<le> numDomestic ov \<and> distinct (peerSet ov) \<and>
    (\<forall>p \<in> set (peerSet ov). 0 \<le> foreignOverlapSize ov p) \<and>
    (\<forall>p \<in> set (peerSet ov).
       \<exists>gs. indexInbox p = Some gs \<and> countInbox p = Some [int (length gs)]) \<longrightarrow>
      (\<exists>st0. construct True ov countInbox indexInbox uninit = Inr st0 \<and>
         (\<forall>p. numIndicesSendBuff st0 p =
            (if p \<in> set (peerSet ov) then Some [foreignOverlapSize ov p] else None)) \<and>
         (\<forall>p. indicesSendBuff st0 p =
            (if p \<in> set (peerSet ov) then Some (map (globalToDomestic ov) (sentGlobals ov p))
             else None)) \<and>
         (\<forall>p. indicesRecvBuff st0 p =
            (if p \<in> set (peerSet ov) then map_option (map (globalToDomestic ov)) (indexInbox p)
             else None)))) \<and>
   (sync ov inbox st = Inr st' \<longrightarrow> indexPlans st' = indexPlans st) \<and>
   (syncAdd ov inbox st = Inr st' \<longrightarrow> indexPlans st' = indexPlans st) \<and>
   (syncAddBorder ov inbox st = Inr st' \<longrightarrow> indexPlans st' = indexPlans st) \<and>
   (assign ov inbox V st = Inr st' \<longrightarrow> indexPlans st' = indexPlans st) \<and>
   (assignAddBorder ov inbox V st = Inr st' \<longrightarrow> indexPlans st' = indexPlans st) \<and>
   (assignTo ov st target = Inr (st', target') \<longrightarrow> indexPlans st' = indexPlans st) \<and>
   indexPlans (operatorAssign st obv) = indexPlans obv \<and>
   indexPlans (copyConstruct obv) = indexPlans obv \<and>
   (0 \<le> numDomestic ov \<longrightarrow>
      (\<exists>st0. construct False ov countInbox indexInbox uninit = Inr st0 \<and>
             indexPlans st0 = noPlans)) \<and>
   indexPlans (defaultConstruct :: 'v::{zero,plus} obv) = noPlans"
proof (intro conjI impI)
  assume "0 \<le> numDomestic ov \<and> distinct (peerSet ov) \<and>
    (\<forall>p \<in> set (peerSet ov). 0 \<le> foreignOverlapSize ov p) \<and>
    (\<forall>p \<in> set (peerSet ov).
       \<exists>gs. indexInbox p = Some gs \<and> countInbox p = Some [int (length gs)])"
  then show "\<exists>st0. construct True ov countInbox indexInbox uninit = Inr st0 \<and>
         (\<forall>p. numIndicesSendBuff st0 p =
            (if p \<in> set (peerSet ov) then Some [foreignOverlapSize ov p] else None)) \<and>
         (\<forall>p. indicesSendBuff st0 p =
            (if p \<in> set (peerSet ov) then Some (map (globalToDomestic ov) (sentGlobals ov p))
             else None)) \<and>
         (\<forall>p. indicesRecvBuff st0 p =
            (if p \<in> set (peerSet ov) then map_option (map (globalToDomestic ov)) (indexInbox p)
             else None))"
    using construct_index_plans[of ov indexInbox countInbox uninit] by blast
next
  assume "sync ov inbox st = Inr st'"
  then show "indexPlans st' = indexPlans st" by (rule sync_frame)
next
  assume "syncAdd ov inbox st = Inr st'"
  then show "indexPlans st' = indexPlans st" by (rule syncAdd_frame)
next
  assume "syncAddBorder ov inbox st = Inr st'"
  then show "indexPlans st' = indexPlans st" by (rule syncAddBorder_frame)
next
  assume "assign ov inbox V st = Inr st'"
  then obtain xs where "sync ov inbox (st\<lparr>rows := xs\<rparr>) = Inr st'"
    by (auto simp: assign_def bindE_eq_Inr)
  from sync_frame[OF this] show "indexPlans st' = indexPlans st"
    by (simp add: indexPlans_def)
next
  assume "assignAddBorder ov inbox V st = Inr st'"
  then obtain xs where "syncAddBorder ov inbox (st\<lparr>rows := xs\<rparr>) = Inr st'"
    by (auto simp: assignAddBorder_def bindE_eq_Inr)
  from syncAddBorder_frame[OF this] show "indexPlans st' = indexPlans st"
    by (simp add: indexPlans_def)
next
  assume "assignTo ov st target = Inr (st', target')"
  then show "indexPlans st' = indexPlans st"
    by (auto simp: assignTo_def bindE_eq_Inr)
next
  show "indexPlans (operatorAssign st obv) = indexPlans obv"
    by (simp add: operatorAssign_def indexPlans_def)
next
  show "indexPlans (copyConstruct obv) = indexPlans obv"
    by (simp add: copyConstruct_def indexPlans_def)
next
  assume "0 \<le> numDomestic ov"
  from construct_without_mpi[OF this]
  show "\<exists>st0. construct False ov countInbox indexInbox uninit = Inr st0 \<and>
             indexPlans st0 = noPlans" by blast
next
  show "indexPlans (defaultConstruct :: 'v obv) = noPlans"
    by (simp add: defaultConstruct_def indexPlans_def noPlans_def)
qed

lemmas ex_build_defs =
  construct_def blankVector_def createBuffers_def sendIndices_def receiveIndices_def
  convertSendIndices_def sentGlobals_def ex_fromRank1_count_def ex_fromRank1_index_def

lemma ex_x_built:
  "\<not> isl (construct True ex_ov0 ex_fromRank1_count ex_fromRank1_index (\<lambda>i. 0 :: int))"
  "indicesSendBuff ex_x 1 = Some [0]" "indicesRecvBuff ex_x 1 = Some [1]"
  "numIndicesSendBuff ex_x 1 = Some [1]"
  by (simp_all add: ex_x_def ex_build_defs ex_cl_defs)

lemma ex_y_built:
  "\<not> isl (construct True (ex_ov0\<lparr>foreignOverlapSize := (\<lambda>p. 0)\<rparr>)
           ex_fromRank1_count ex_fromRank1_index (\<lambda>i. 0 :: int))"
  "indicesSendBuff ex_y 1 = Some []" "numIndicesSendBuff ex_y 1 = Some [0]"
  by (simp_all add: ex_y_def ex_build_defs ex_cl_defs)

text \<open>
  Rank 0 of the two processes builds \<open>ex_x\<close> from what rank 1 announces; the six calls
  return on the process with two peers, each with the plans of \<open>ex_st\<close>.
\<close>

theorem index_plans_built_by_constructor_and_kept_witness:
  "(0 \<le> numDomestic ex_ov0 \<and> distinct (peerSet ex_ov0) \<and> 0 \<le> foreignOverlapSize ex_ov0 1 \<and>
    ex_fromRank1_index 1 = Some [101] \<and> ex_fromRank1_count 1 = Some [int (length [101 :: int])]) \<and>
   construct True ex_ov0 ex_fromRank1_count ex_fromRank1_index (\<lambda>i. 0) = Inr ex_x \<and>
   numIndicesSendBuff ex_x 1 = Some [foreignOverlapSize ex_ov0 1] \<and>
   indicesSendBuff ex_x 1 = Some (map (globalToDomestic ex_ov0) (sentGlobals ex_ov0 1)) \<and>
   indicesRecvBuff ex_x 1 = Some (map (globalToDomestic ex_ov0) [101]) \<and>
   indicesRecvBuff ex_x 1 = Some [1] \<and>
   (\<not> isl (sync ex_ov ex_inbox ex_st) \<and>
      indexPlans (projr (sync ex_ov ex_inbox ex_st)) = indexPlans ex_st) \<and>
   (\<not> isl (syncAdd ex_ov ex_inbox ex_st) \<and>
      indexPlans (projr (syncAdd ex_ov ex_inbox ex_st)) = indexPlans ex_st) \<and>
   (\<not> isl (syncAddBorder ex_ov ex_inbox ex_st) \<and>
      indexPlans (projr (syncAddBorder ex_ov ex_inbox ex_st)) = indexPlans ex_st) \<and>
   (\<not> isl (assign ex_ov ex_inbox ex_V ex_st) \<and>
      indexPlans (projr (assign ex_ov ex_inbox ex_V ex_st)) = indexPlans ex_st) \<and>
   (\<not> isl (assignAddBorder ex_ov ex_inbox ex_V ex_st) \<and>
      indexPlans (projr (assignAddBorder ex_ov ex_inbox ex_V ex_st)) = indexPlans ex_st) \<and>
   (\<not> isl (assignTo ex_ov ex_st []) \<and>
      indexPlans (fst (projr (assignTo ex_ov ex_st []))) = indexPlans ex_st) \<and>
   indexPlans (operatorAssign ex_x ex_y) = indexPlans ex_y \<and>
   indexPlans (copyConstruct ex_y) = indexPlans ex_y \<and>
   (\<not> isl (construct False ex_ov0 ex_fromRank1_count ex_fromRank1_index (\<lambda>i. 0 :: int)) \<and>
      indexPlans (projr (construct False ex_ov0 ex_fromRank1_count ex_fromRank1_index
                          (\<lambda>i. 0 :: int))) = noPlans) \<and>
   indexPlans (defaultConstruct :: int obv) = noPlans"
proof -
  have r1: "sync ex_ov ex_inbox ex_st = Inr (projr (sync ex_ov ex_inbox ex_st))"
    by (simp add: sync_def receiveFromMaster_def ex_defs)
  have r2: "syncAdd ex_ov ex_inbox ex_st = Inr (projr (syncAdd ex_ov ex_inbox ex_st))"
    by (simp add: syncAdd_def receiveAdd_def ex_defs)
  have r3: "syncAddBorder ex_ov ex_inbox ex_st = Inr (projr (syncAddBorder ex_ov ex_inbox ex_st))"
    by (simp add: syncAddBorder_def receiveAddBorder_def ex_defs)
  have r4: "assign ex_ov ex_inbox ex_V ex_st = Inr (projr (assign ex_ov ex_inbox ex_V ex_st))"
    by (simp add: assign_def sync_def receiveFromMaster_def ex_V_def ex_defs)
  have r5: "assignAddBorder ex_ov ex_inbox ex_V ex_st =
      Inr (projr (assignAddBorder ex_ov ex_inbox ex_V ex_st))"
    by (simp add: assignAddBorder_def syncAddBorder_def receiveAddBorder_def ex_V_def ex_defs)
  have r6: "assignTo ex_ov ex_st [] =
      Inr (fst (projr (assignTo ex_ov ex_st [])), snd (projr (assignTo ex_ov ex_st [])))"
    by (simp add: assignTo_def resize_def ex_defs)
  have h: "0 \<le> numDomestic ex_ov0" "distinct (peerSet ex_ov0)"
    "\<forall>p \<in> set (peerSet ex_ov0). 0 \<le> foreignOverlapSize ex_ov0 p"
    "\<forall>p \<in> set (peerSet ex_ov0).
       \<exists>gs. ex_fromRank1_index p = Some gs \<and> ex_fromRank1_count p = Some [int (length gs)]"
    "1 \<in> set (peerSet ex_ov0)" "0 \<le> foreignOverlapSize ex_ov0 1"
    "ex_fromRank1_index 1 = Some [101]"
    "ex_fromRank1_count 1 = Some [int (length [101 :: int])]"
    by (simp_all add: ex_ov0_def ex_fromRank1_count_def ex_fromRank1_index_def)
  note t = index_plans_built_by_constructor_and_kept
  have t1: "\<exists>st0. construct True ex_ov0 ex_fromRank1_count ex_fromRank1_index (\<lambda>i. 0 :: int) = Inr st0 \<and>
         (\<forall>p. numIndicesSendBuff st0 p =
            (if p \<in> set (peerSet ex_ov0) then Some [foreignOverlapSize ex_ov0 p] else None)) \<and>
         (\<forall>p. indicesSendBuff st0 p =
            (if p \<in> set (peerSet ex_ov0)
             then Some (map (globalToDomestic ex_ov0) (sentGlobals ex_ov0 p)) else None)) \<and>
         (\<forall>p. indicesRecvBuff st0 p =
            (if p \<in> set (peerSet ex_ov0)
             then map_option (map (globalToDomestic ex_ov0)) (ex_fromRank1_index p) else None))"
    using t[of ex_ov0 ex_fromRank1_index ex_fromRank1_count "\<lambda>i. 0 :: int"
        ex_inbox ex_st ex_st ex_V "[]" "[]" ex_st] h(1-4)
    by blast
  then obtain st0 where
    c: "construct True ex_ov0 ex_fromRank1_count ex_fromRank1_index (\<lambda>i. 0 :: int) = Inr st0"
    and n: "\<forall>p. numIndicesSendBuff st0 p =
            (if p \<in> set (peerSet ex_ov0) then Some [foreignOverlapSize ex_ov0 p] else None)"
    and i: "\<forall>p. indicesSendBuff st0 p =
            (if p \<in> set (peerSet ex_ov0)
             then Some (map (globalToDomestic ex_ov0) (sentGlobals ex_ov0 p)) else None)"
    and r: "\<forall>p. indicesRecvBuff st0 p =
            (if p \<in> set (peerSet ex_ov0)
             then map_option (map (globalToDomestic ex_ov0)) (ex_fromRank1_index p) else None)"
    by blast
  from c have x: "st0 = ex_x" by (simp add: ex_x_def)
  from n i r h(5,7) x have built:
    "numIndicesSendBuff ex_x 1 = Some [foreignOverlapSize ex_ov0 1]"
    "indicesSendBuff ex_x 1 = Some (map (globalToDomestic ex_ov0) (sentGlobals ex_ov0 1))"
    "indicesRecvBuff ex_x 1 = Some (map (globalToDomestic ex_ov0) [101])"
    by simp_all
  have t2: "\<exists>s0. construct False ex_ov0 ex_fromRank1_count ex_fromRank1_index (\<lambda>i. 0 :: int) = Inr s0 \<and>
      indexPlans s0 = noPlans"
    using t[of ex_ov0 ex_fromRank1_index ex_fromRank1_count "\<lambda>i. 0 :: int"
        ex_inbox ex_st ex_st ex_V "[]" "[]" ex_st] h(1)
    by blast
  then obtain s0 where
    f: "construct False ex_ov0 ex_fromRank1_count ex_fromRank1_index (\<lambda>i. 0 :: int) = Inr s0"
    and fp: "indexPlans s0 = noPlans"
    by blast
  have p1: "indexPlans (projr (sync ex_ov ex_inbox ex_st)) = indexPlans ex_st"
    using t[of ex_ov ex_indexInbox ex_countInbox "\<lambda>i. 0 :: int" ex_inbox ex_st
        "projr (sync ex_ov ex_inbox ex_st)" ex_V "[]" "[]" ex_st] r1 by blast
  have p2: "indexPlans (projr (syncAdd ex_ov ex_inbox ex_st)) = indexPlans ex_st"
    using t[of ex_ov ex_indexInbox ex_countInbox "\<lambda>i. 0 :: int" ex_inbox ex_st
        "projr (syncAdd ex_ov ex_inbox ex_st)" ex_V "[]" "[]" ex_st] r2 by blast
  have p3: "indexPlans (projr (syncAddBorder ex_ov ex_inbox ex_st)) = indexPlans ex_st"
    using t[of ex_ov ex_indexInbox ex_countInbox "\<lambda>i. 0 :: int" ex_inbox ex_st
        "projr (syncAddBorder ex_ov ex_inbox ex_st)" ex_V "[]" "[]" ex_st] r3 by blast
  have p4: "indexPlans (projr (assign ex_ov ex_inbox ex_V ex_st)) = indexPlans ex_st"
    using t[of ex_ov ex_indexInbox ex_countInbox "\<lambda>i. 0 :: int" ex_inbox ex_st
        "projr (assign ex_ov ex_inbox ex_V ex_st)" ex_V "[]" "[]" ex_st] r4 by blast
  have p5: "indexPlans (projr (assignAddBorder ex_ov ex_inbox ex_V ex_st)) = indexPlans ex_st"
    using t[of ex_ov ex_indexInbox ex_countInbox "\<lambda>i. 0 :: int" ex_inbox ex_st
        "projr (assignAddBorder ex_ov ex_inbox ex_V ex_st)" ex_V "[]" "[]" ex_st] r5 by blast
  have p6: "indexPlans (fst (projr (assignTo ex_ov ex_st []))) = indexPlans ex_st"
    using t[of ex_ov ex_indexInbox ex_countInbox "\<lambda>i. 0 :: int" ex_inbox ex_st
        "fst (projr (assignTo ex_ov ex_st []))" ex_V "[]"
        "snd (projr (assignTo ex_ov ex_st []))" ex_st] r6 by blast
  have p7: "indexPlans (operatorAssign ex_x ex_y) = indexPlans ex_y"
    "indexPlans (copyConstruct ex_y) = indexPlans ex_y"
    "indexPlans (defaultConstruct :: int obv) = noPlans"
    using t[of ex_ov ex_indexInbox ex_countInbox "\<lambda>i. 0 :: int" ex_inbox ex_x
        ex_x ex_V "[]" "[]" ex_y] by blast+
  have a: "\<not> isl (sync ex_ov ex_inbox ex_st)" "\<not> isl (syncAdd ex_ov ex_inbox ex_st)"
    "\<not> isl (syncAddBorder ex_ov ex_inbox ex_st)" "\<not> isl (assign ex_ov ex_inbox ex_V ex_st)"
    "\<not> isl (assignAddBorder ex_ov ex_inbox ex_V ex_st)" "\<not> isl (assignTo ex_ov ex_st [])"
    using r1 r2 r3 r4 r5 r6 by (metis sum.disc(2))+
  have b: "\<not> isl (construct False ex_ov0 ex_fromRank1_count ex_fromRank1_index (\<lambda>i. 0 :: int))"
    "indexPlans (projr (construct False ex_ov0 ex_fromRank1_count ex_fromRank1_index
                          (\<lambda>i. 0 :: int))) = noPlans"
    using f fp by simp_all
  from c x have cx: "construct True ex_ov0 ex_fromRank1_count ex_fromRank1_index (\<lambda>i. 0) = Inr ex_x"
    by simp
  show ?thesis
    using h(1,2,6,7,8) cx built ex_x_built(3) a p1 p2 p3 p4 p5 p6 p7 b by simp
qed

text \<open>
  The claim as it was stated, plans built exactly once at construction and never modified
  afterwards, fails in two ways. The constructor has built \<open>ex_x\<close> with the send plan
  \<open>[0]\<close> for rank 1; once \<open>operator=\<close> has assigned \<open>ex_y\<close> to it, its send plan for
  rank 1 is \<open>[]\<close>, the plan of \<open>ex_y\<close>. And without \<open>HAVE_MPI\<close> the constructor returns on the same descriptor,
  with rank 1 in its peer set, an object that has no plan for rank 1.
\<close>

theorem index_plans_replaced_or_never_built:
  "construct True ex_ov0 ex_fromRank1_count ex_fromRank1_index (\<lambda>i. 0) = Inr ex_x \<and>
   indicesSendBuff ex_x 1 = Some [0] \<and>
   indicesSendBuff (operatorAssign ex_x ex_y) 1 = Some [] \<and>
   1 \<in> set (peerSet ex_ov0) \<and>
   \<not> isl (construct False ex_ov0 ex_fromRank1_count ex_fromRank1_index (\<lambda>i. 0 :: int)) \<and>
   indicesSendBuff (projr (construct False ex_ov0 ex_fromRank1_count ex_fromRank1_index
                            (\<lambda>i. 0 :: int))) 1 = None \<and>
   indicesRecvBuff (projr (construct False ex_ov0 ex_fromRank1_count ex_fromRank1_index
                            (\<lambda>i. 0 :: int))) 1 = None"
proof -
  have "construct True ex_ov0 ex_fromRank1_count ex_fromRank1_index (\<lambda>i. 0) = Inr ex_x"
    using ex_x_built(1) by (simp add: ex_x_def)
  moreover have "indicesSendBuff (operatorAssign ex_x ex_y) 1 = Some []"
    using ex_y_built(2) by (simp add: operatorAssign_def)
  moreover have "1 \<in> set (peerSet ex_ov0)" by (simp add: ex_ov0_def)
  moreover have
    "\<not> isl (construct False ex_ov0 ex_fromRank1_count ex_fromRank1_index (\<lambda>i. 0 :: int))"
    "indicesSendBuff (projr (construct False ex_ov0 ex_fromRank1_count ex_fromRank1_index
                            (\<lambda>i. 0 :: int))) 1 = None"
    "indicesRecvBuff (projr (construct False ex_ov0 ex_fromRank1_count ex_fromRank1_index
                            (\<lambda>i. 0 :: int))) 1 = None"
    by (simp_all add: ex_build_defs ex_ov0_def)
  ultimately show ?thesis using ex_x_built(2) by simp
qed

end
